theory Spec2Isabelle
  imports Main "HOL-Library.Word" "HOL-Library.Multiset"
begin

unbundle bit_operations_syntax

section \<open>The memory manager (memory.h, memory.cpp)\<close>

text \<open>
  Pointers (\<open>void*\<close>, \<open>uint8_t*\<close>, \<open>uintptr_t\<close>), \<open>size_t\<close> and \<open>uint64_t\<close> are
  64-bit words: unsigned arithmetic wraps, as in the source. \<open>nullptr\<close> is the word 0.
  \<open>int\<close> values (process ids, priorities, signals) are mathematical integers: the source
  only copies and compares them, except for \<open>next_pid++\<close>, whose signed overflow is
  undefined behaviour and is an explicit \<open>None\<close> of the model.

  Every operation of a manager is one atomic step of the model; most of them hold the
  mutex of the manager from their first statement to their return. \<open>std::mutex\<close> is
  not recursive; of the operations modelled, the one that locks a mutex it holds is
  \<open>send_signal\<close>, see there.

  Undefined behaviour of the memory manager is a value of the model, with its cause:
\<close>

datatype fault =
    Dangling_reference
  | Out_of_range

text \<open>
  \<open>Dangling_reference\<close>: an element of \<open>memory_blocks\<close> is read or written through a
  reference that a reallocation of the vector has invalidated. \<open>Out_of_range\<close>:
  \<open>memory_blocks[i]\<close> with \<open>i\<close> not below \<open>size()\<close>.
\<close>

record MemoryBlock =
  address :: "64 word"
  size_b :: "64 word"
  is_free :: bool
  process_id :: int

text \<open>Of the bit fields of \<open>PageTableEntry\<close> the source reads and writes these four.\<close>

record PageTableEntry =
  physical_address :: "40 word"
  present :: bool
  writable :: bool
  user_accessible :: bool

text \<open>
  The vector \<open>memory_blocks\<close> is the list of its elements together with its
  \<open>capacity()\<close>, here \<open>blocks_capacity\<close>: \<open>push_back\<close> moves the elements to new
  storage exactly when \<open>size()\<close> equals \<open>capacity()\<close>, and the source never calls
  \<open>reserve\<close>. Of the other fields, \<open>next_free_offset\<close> is never used.
\<close>

record MemoryManager =
  memory_blocks :: "MemoryBlock list"
  blocks_capacity :: nat
  allocated_blocks :: "64 word \<rightharpoonup> 64 word"
  memory_pool :: "64 word"
  pool_size :: "64 word"
  page_table :: "PageTableEntry list"
  next_virtual_address :: "64 word"

definition PAGE_SIZE :: "64 word" where
  "PAGE_SIZE = 4096"

definition MEMORY_POOL_SIZE :: "64 word" where
  "MEMORY_POOL_SIZE = 1024 * 1024 * 16"

text \<open>
  The constructor \<open>MemoryManager::MemoryManager()\<close>; a default-constructed vector has
  capacity 0.
\<close>

definition MemoryManager_new :: MemoryManager where
  "MemoryManager_new =
     \<lparr>memory_blocks = [], blocks_capacity = 0, allocated_blocks = Map.empty, memory_pool = 0,
      pool_size = MEMORY_POOL_SIZE, page_table = [], next_virtual_address = 0x1000000\<rparr>"

text \<open>
  The capacity after \<open>push_back\<close> on a vector of \<open>n\<close> elements and capacity \<open>c\<close>. With
  room left it stays; a full vector grows by a factor the library chooses: 2 in libstdc++
  and libc++, taken here (1.5 in the Microsoft library). All of them go from 0 to 1.
\<close>

definition push_back_capacity :: "nat \<Rightarrow> nat \<Rightarrow> nat" where
  "push_back_capacity n c = (if n < c then c else max 1 (2 * c))"

text \<open>\<open>std::vector::resize(n)\<close>: truncates, or appends value-initialised entries.\<close>

definition resize_table :: "nat \<Rightarrow> PageTableEntry list \<Rightarrow> PageTableEntry list" where
  "resize_table n es =
     take n es @ replicate (n - length es)
       \<lparr>physical_address = 0, present = False, writable = False, user_accessible = False\<rparr>"

text \<open>
  \<open>initialize()\<close>. The argument \<open>m\<close> is what \<open>std::malloc(pool_size)\<close> returned
  (0 when it failed). The block list is not cleared: the initial block is pushed behind
  whatever the list holds. No reference into the vector is held across this
  \<open>push_back\<close>.
\<close>

definition initialize :: "64 word \<Rightarrow> MemoryManager \<Rightarrow> bool \<times> MemoryManager" where
  "initialize m s =
     (if m = 0 then (False, s\<lparr>memory_pool := 0\<rparr>)
      else (True,
        s\<lparr>memory_pool := m,
          memory_blocks := memory_blocks s @
            [\<lparr>address = m, size_b = pool_size s, is_free = True, process_id = - 1\<rparr>],
          blocks_capacity := push_back_capacity (length (memory_blocks s)) (blocks_capacity s),
          page_table :=
            map (\<lambda>entry. entry\<lparr>present := False, writable := True, user_accessible := True\<rparr>)
              (resize_table 1024 (page_table s))\<rparr>))"

text \<open>
  \<open>first_fit_allocate(size)\<close>: the loop \<open>for (auto& block : memory_blocks)\<close>, in vector
  order. \<open>room\<close> says that \<open>size()\<close> is below \<open>capacity()\<close> when the loop runs. When
  the chosen block is split, the tail is pushed to the back of the vector, and
  \<open>block.size\<close>, \<open>block.is_free\<close> are written and \<open>block.address\<close> is read after
  that: with room the reference \<open>block\<close> is still the chosen element, without room
  \<open>push_back\<close> has moved the elements and \<open>block\<close> dangles. The result is the returned
  pointer and the new elements of the vector; a \<open>push_back\<close> with room keeps the capacity.
\<close>

fun first_fit_scan ::
  "64 word \<Rightarrow> bool \<Rightarrow> MemoryBlock list \<Rightarrow> fault + (64 word \<times> MemoryBlock list)" where
  "first_fit_scan sz room [] = Inr (0, [])"
| "first_fit_scan sz room (block # rest) =
     (if is_free block \<and> sz \<le> size_b block
      then
        if sz < size_b block
        then
          if room
          then Inr (address block,
                 block\<lparr>size_b := sz, is_free := False\<rparr> # rest @
                   [\<lparr>address = address block + sz, size_b = size_b block - sz,
                     is_free = True, process_id = - 1\<rparr>])
          else Inl Dangling_reference
        else Inr (address block, block\<lparr>size_b := sz, is_free := False\<rparr> # rest)
      else
        case first_fit_scan sz room rest of
          Inl f \<Rightarrow> Inl f
        | Inr (ptr, rest') \<Rightarrow> Inr (ptr, block # rest'))"

definition first_fit_allocate ::
  "64 word \<Rightarrow> MemoryManager \<Rightarrow> fault + (64 word \<times> MemoryBlock list)" where
  "first_fit_allocate sz s =
     first_fit_scan sz (length (memory_blocks s) < blocks_capacity s) (memory_blocks s)"

definition allocate :: "64 word \<Rightarrow> MemoryManager \<Rightarrow> fault + (64 word \<times> MemoryManager)" where
  "allocate sz s =
     (if sz = 0 then Inr (0, s)
      else
        let sz' = (sz + 7) AND NOT 7
        in case first_fit_allocate sz' s of
             Inl f \<Rightarrow> Inl f
           | Inr (ptr, bs) \<Rightarrow>
               if ptr \<noteq> 0
               then Inr (ptr, s\<lparr>memory_blocks := bs,
                                allocated_blocks := (allocated_blocks s)(ptr \<mapsto> sz')\<rparr>)
               else Inr (0, s\<lparr>memory_blocks := bs\<rparr>))"

definition allocate_aligned ::
  "64 word \<Rightarrow> 64 word \<Rightarrow> MemoryManager \<Rightarrow> fault + (64 word \<times> MemoryManager)" where
  "allocate_aligned sz alignment s =
     (if alignment = 0 \<or> alignment AND (alignment - 1) \<noteq> 0 then Inr (0, s)
      else
        case allocate (sz + alignment - 1) s of
          Inl f \<Rightarrow> Inl f
        | Inr (ptr, s') \<Rightarrow>
            if ptr \<noteq> 0 then Inr ((ptr + alignment - 1) AND NOT (alignment - 1), s')
            else Inr (0, s'))"

text \<open>
  \<open>coalesce_free_blocks()\<close>, a private function that \<open>deallocate\<close> and
  \<open>deallocate_process_memory\<close> call. \<open>std::sort\<close> with the comparison
  \<open>a.address < b.address\<close> returns the elements sorted by address and promises nothing
  about the order of elements of equal address: it is the parameter \<open>srt\<close>, any function
  with \<open>sorts_by_address srt\<close>. The merge loop at index \<open>i\<close> is the recursion on the
  vector from \<open>i\<close> on; \<open>erase\<close> keeps the capacity. On an empty vector the loop bound
  \<open>size() - 1\<close> wraps around and the loop reads \<open>memory_blocks[0]\<close>.
\<close>

definition sorts_by_address :: "(MemoryBlock list \<Rightarrow> MemoryBlock list) \<Rightarrow> bool" where
  "sorts_by_address srt = (\<forall>bs. mset (srt bs) = mset bs \<and> sorted (map address (srt bs)))"

fun merge_adjacent :: "MemoryBlock list \<Rightarrow> MemoryBlock list" where
  "merge_adjacent (cur # nxt # rest) =
     (if is_free cur \<and> is_free nxt \<and> address cur + size_b cur = address nxt
      then merge_adjacent (cur\<lparr>size_b := size_b cur + size_b nxt\<rparr> # rest)
      else cur # merge_adjacent (nxt # rest))"
| "merge_adjacent bs = bs"

definition coalesce_free_blocks ::
  "(MemoryBlock list \<Rightarrow> MemoryBlock list) \<Rightarrow> MemoryBlock list \<Rightarrow> fault + MemoryBlock list" where
  "coalesce_free_blocks srt bs =
     (if bs = [] then Inl Out_of_range else Inr (merge_adjacent (srt bs)))"

text \<open>The loop of \<open>deallocate\<close>: the first block at \<open>ptr\<close> is marked free.\<close>

fun mark_free :: "64 word \<Rightarrow> MemoryBlock list \<Rightarrow> MemoryBlock list" where
  "mark_free ptr [] = []"
| "mark_free ptr (block # rest) =
     (if address block = ptr then block\<lparr>is_free := True, process_id := - 1\<rparr> # rest
      else block # mark_free ptr rest)"

text \<open>
  \<open>deallocate(ptr)\<close> returns nothing; the model returns what it did: nothing for a null
  pointer; the report on \<open>std::cerr\<close> of a pointer with no allocation record; for a
  pointer with a record, the record erased and either the line \<open>Freed\<close> for the block at
  \<open>ptr\<close> or, when no block starts at \<open>ptr\<close>, no line.
\<close>

datatype free_report = Null_pointer | Invalid_free | Freed | No_block

definition deallocate ::
  "(MemoryBlock list \<Rightarrow> MemoryBlock list) \<Rightarrow> 64 word \<Rightarrow> MemoryManager
     \<Rightarrow> fault + (free_report \<times> MemoryManager)" where
  "deallocate srt ptr s =
     (if ptr = 0 then Inr (Null_pointer, s)
      else case allocated_blocks s ptr of
        None \<Rightarrow> Inr (Invalid_free, s)
      | Some sz \<Rightarrow>
          (case coalesce_free_blocks srt (mark_free ptr (memory_blocks s)) of
            Inl f \<Rightarrow> Inl f
          | Inr bs \<Rightarrow>
              Inr (if ptr \<in> set (map address (memory_blocks s)) then Freed else No_block,
                   s\<lparr>allocated_blocks := (allocated_blocks s)(ptr := None),
                     memory_blocks := bs\<rparr>)))"

definition get_total_memory :: "MemoryManager \<Rightarrow> 64 word" where
  "get_total_memory s = pool_size s"

definition get_free_memory :: "MemoryManager \<Rightarrow> 64 word" where
  "get_free_memory s = sum_list (map size_b (filter is_free (memory_blocks s)))"

definition get_used_memory :: "MemoryManager \<Rightarrow> 64 word" where
  "get_used_memory s = get_total_memory s - get_free_memory s"

text \<open>The loop of \<open>allocate_for_process\<close>: the first block at \<open>ptr\<close> gets the owner.\<close>

fun set_owner :: "64 word \<Rightarrow> int \<Rightarrow> MemoryBlock list \<Rightarrow> MemoryBlock list" where
  "set_owner ptr owner [] = []"
| "set_owner ptr owner (block # rest) =
     (if address block = ptr then block\<lparr>process_id := owner\<rparr> # rest
      else block # set_owner ptr owner rest)"

definition allocate_for_process ::
  "int \<Rightarrow> 64 word \<Rightarrow> MemoryManager \<Rightarrow> fault + (64 word \<times> MemoryManager)" where
  "allocate_for_process owner sz s =
     (case allocate sz s of
        Inl f \<Rightarrow> Inl f
      | Inr (ptr, s') \<Rightarrow>
          if ptr \<noteq> 0
          then Inr (ptr, s'\<lparr>memory_blocks := set_owner ptr owner (memory_blocks s')\<rparr>)
          else Inr (ptr, s'))"

definition release_owned :: "int \<Rightarrow> MemoryBlock \<Rightarrow> MemoryBlock" where
  "release_owned owner block =
     (if process_id block = owner \<and> \<not> is_free block
      then block\<lparr>is_free := True, process_id := - 1\<rparr> else block)"

definition deallocate_process_memory ::
  "(MemoryBlock list \<Rightarrow> MemoryBlock list) \<Rightarrow> int \<Rightarrow> MemoryManager \<Rightarrow> fault + MemoryManager" where
  "deallocate_process_memory srt owner s =
     (case coalesce_free_blocks srt (map (release_owned owner) (memory_blocks s)) of
        Inl f \<Rightarrow> Inl f
      | Inr bs \<Rightarrow> Inr (s\<lparr>memory_blocks := bs\<rparr>))"

subsection \<open>The page mapper\<close>

definition page_index :: "64 word \<Rightarrow> nat" where
  "page_index virtual_addr = unat ((virtual_addr - 0x1000000) div PAGE_SIZE)"

definition map_page :: "64 word \<Rightarrow> 64 word \<Rightarrow> MemoryManager \<Rightarrow> bool \<times> MemoryManager" where
  "map_page virtual_addr physical_addr s =
     (if page_index virtual_addr < length (page_table s)
      then (True, s\<lparr>page_table := (page_table s)[page_index virtual_addr :=
              (page_table s ! page_index virtual_addr)
                \<lparr>physical_address := ucast (drop_bit 12 physical_addr), present := True\<rparr>]\<rparr>)
      else (False, s))"

definition unmap_page :: "64 word \<Rightarrow> MemoryManager \<Rightarrow> MemoryManager" where
  "unmap_page virtual_addr s =
     (if page_index virtual_addr < length (page_table s)
      then s\<lparr>page_table := (page_table s)[page_index virtual_addr :=
              (page_table s ! page_index virtual_addr)
                \<lparr>present := False, physical_address := 0\<rparr>]\<rparr>
      else s)"

definition virtual_to_physical :: "64 word \<Rightarrow> MemoryManager \<Rightarrow> 64 word" where
  "virtual_to_physical virtual_addr s =
     (if page_index virtual_addr < length (page_table s)
         \<and> present (page_table s ! page_index virtual_addr)
      then push_bit 12 (ucast (physical_address (page_table s ! page_index virtual_addr)))
             OR (virtual_addr AND (PAGE_SIZE - 1))
      else 0)"

text \<open>\<open>allocate_virtual_page()\<close> does not look at what \<open>map_page\<close> returns.\<close>

definition allocate_virtual_page :: "MemoryManager \<Rightarrow> fault + (64 word \<times> MemoryManager)" where
  "allocate_virtual_page s =
     (case allocate_aligned PAGE_SIZE PAGE_SIZE s of
        Inl f \<Rightarrow> Inl f
      | Inr (page, s') \<Rightarrow>
          if page \<noteq> 0
          then let virtual_addr = next_virtual_address s';
                   s'' = s'\<lparr>next_virtual_address := next_virtual_address s' + PAGE_SIZE\<rparr>
               in Inr (virtual_addr, snd (map_page virtual_addr page s''))
          else Inr (0, s'))"

definition free_virtual_page ::
  "(MemoryBlock list \<Rightarrow> MemoryBlock list) \<Rightarrow> 64 word \<Rightarrow> MemoryManager \<Rightarrow> fault + MemoryManager" where
  "free_virtual_page srt page s =
     (let physical_addr = virtual_to_physical page s
      in if physical_addr \<noteq> 0
         then case deallocate srt physical_addr (unmap_page page s) of
                Inl f \<Rightarrow> Inl f
              | Inr (report, s') \<Rightarrow> Inr s'
         else Inr s)"

section \<open>The process manager (process.h, process.cpp)\<close>

datatype ProcessState = PROCESS_READY | PROCESS_RUNNING | PROCESS_BLOCKED | PROCESS_TERMINATED

text \<open>
  \<open>process_thread\<close> is the execution unit of a control block, by how far it has run
  \<open>execute_process\<close>: no thread yet, created but before its first statement, inside
  the function, returned.
\<close>

datatype thread_phase = No_thread | Not_started | Started | Finished

record ProcessControlBlock =
  pid :: int
  parent_pid :: int
  state :: ProcessState
  executable_path :: string
  memory_base :: "64 word"
  memory_size :: "64 word"
  priority :: int
  cpu_time :: "64 word"
  process_thread :: thread_phase
  should_terminate :: bool

text \<open>
  A \<open>ProcessControlBlock*\<close> is the pid of the block it points to (\<open>create_pcb\<close> gives
  every block a pid of its own), \<open>nullptr\<close> is \<open>None\<close>. \<open>pid_map\<close> is the index of
  \<open>process_table\<close> by pid: \<open>create_process\<close> and \<open>terminate_process\<close> change both
  together, so \<open>pid_map.find(pid)\<close> is \<open>find_pcb pid\<close> on the table. A pointer whose
  block \<open>terminate_process\<close> has removed dangles; the source never resets
  \<open>current_process\<close>. Reading or writing through a dangling pointer is undefined
  behaviour: \<open>None\<close>.
\<close>

record ProcessManager =
  process_table :: "ProcessControlBlock list"
  next_pid :: int
  current_process :: "int option"
  scheduler_running :: bool

definition ProcessManager_new :: ProcessManager where
  "ProcessManager_new =
     \<lparr>process_table = [], next_pid = 1, current_process = None, scheduler_running = False\<rparr>"

definition pm_initialize :: "ProcessManager \<Rightarrow> bool \<times> ProcessManager" where
  "pm_initialize s = (True, s\<lparr>scheduler_running := True\<rparr>)"

definition find_pcb :: "int \<Rightarrow> ProcessControlBlock list \<Rightarrow> ProcessControlBlock option" where
  "find_pcb p table = find (\<lambda>pcb. pid pcb = p) table"

definition update_pcb ::
  "int \<Rightarrow> (ProcessControlBlock \<Rightarrow> ProcessControlBlock) \<Rightarrow> ProcessControlBlock list
     \<Rightarrow> ProcessControlBlock list" where
  "update_pcb p f table = map (\<lambda>pcb. if pid pcb = p then f pcb else pcb) table"

definition INT_MAX :: int where
  "INT_MAX = 2147483647"

text \<open>
  \<open>create_pcb\<close>: \<open>None\<close> when \<open>current_process->pid\<close> reads a removed block or
  \<open>next_pid++\<close> overflows.
\<close>

definition create_pcb ::
  "string \<Rightarrow> ProcessManager \<Rightarrow> (ProcessControlBlock \<times> ProcessManager) option" where
  "create_pcb path s =
     (if next_pid s = INT_MAX then None
      else
        case (case current_process s of
                None \<Rightarrow> Some 0
              | Some cur \<Rightarrow> map_option pid (find_pcb cur (process_table s))) of
          None \<Rightarrow> None
        | Some parent \<Rightarrow>
            Some (\<lparr>pid = next_pid s, parent_pid = parent, state = PROCESS_READY,
                   executable_path = path, memory_base = 0, memory_size = 0, priority = 1,
                   cpu_time = 0, process_thread = No_thread, should_terminate = False\<rparr>,
                  s\<lparr>next_pid := next_pid s + 1\<rparr>))"

text \<open>\<open>load_executable\<close>; \<open>m\<close> is what \<open>std::malloc(pcb->memory_size)\<close> returned.\<close>

definition load_executable :: "64 word \<Rightarrow> ProcessControlBlock \<Rightarrow> bool \<times> ProcessControlBlock" where
  "load_executable m pcb =
     (let pcb' = pcb\<lparr>memory_size := 1024 * 64, memory_base := m\<rparr>
      in if m = 0 then (False, pcb') else (True, pcb'))"

definition create_process :: "string \<Rightarrow> 64 word \<Rightarrow> ProcessManager \<Rightarrow> (int \<times> ProcessManager) option" where
  "create_process path m s =
     (case create_pcb path s of
        None \<Rightarrow> None
      | Some (pcb, s') \<Rightarrow>
          (case load_executable m pcb of
             (loaded, pcb') \<Rightarrow>
               if \<not> loaded then Some (- 1, s')
               else Some (pid pcb',
                      s'\<lparr>process_table :=
                           process_table s' @ [pcb'\<lparr>process_thread := Not_started\<rparr>]\<rparr>)))"

text \<open>
  \<open>terminate_process\<close>: the flags are set, \<open>join\<close> returns once the execution unit has
  left \<open>execute_process\<close>, \<open>cleanup_process\<close> frees the memory, and the block is erased
  from \<open>pid_map\<close> and from \<open>process_table\<close>.
\<close>

definition terminate_process :: "int \<Rightarrow> ProcessManager \<Rightarrow> bool \<times> ProcessManager" where
  "terminate_process p s =
     (case find_pcb p (process_table s) of
        None \<Rightarrow> (False, s)
      | Some _ \<Rightarrow>
          (True, s\<lparr>process_table :=
             filter (\<lambda>pcb. pid pcb \<noteq> p)
               (update_pcb p
                  (\<lambda>pcb. pcb\<lparr>should_terminate := True, state := PROCESS_TERMINATED,
                             process_thread := Finished, memory_base := 0\<rparr>)
                  (process_table s))\<rparr>))"

definition suspend_process :: "int \<Rightarrow> ProcessManager \<Rightarrow> bool \<times> ProcessManager" where
  "suspend_process p s =
     (case find_pcb p (process_table s) of
        Some _ \<Rightarrow>
          (True, s\<lparr>process_table :=
             update_pcb p (\<lambda>pcb. pcb\<lparr>state := PROCESS_BLOCKED\<rparr>) (process_table s)\<rparr>)
      | None \<Rightarrow> (False, s))"

definition resume_process :: "int \<Rightarrow> ProcessManager \<Rightarrow> bool \<times> ProcessManager" where
  "resume_process p s =
     (case find_pcb p (process_table s) of
        Some pcb \<Rightarrow>
          if state pcb = PROCESS_BLOCKED
          then (True, s\<lparr>process_table :=
                  update_pcb p (\<lambda>pcb. pcb\<lparr>state := PROCESS_READY\<rparr>) (process_table s)\<rparr>)
          else (False, s)
      | None \<Rightarrow> (False, s))"

definition set_process_priority :: "int \<Rightarrow> int \<Rightarrow> ProcessManager \<Rightarrow> ProcessManager" where
  "set_process_priority p prio s =
     (case find_pcb p (process_table s) of
        Some _ \<Rightarrow>
          s\<lparr>process_table := update_pcb p (\<lambda>pcb. pcb\<lparr>priority := prio\<rparr>) (process_table s)\<rparr>
      | None \<Rightarrow> s)"

text \<open>
  \<open>select_next_process\<close>: the scan carries \<open>best_process\<close> and \<open>highest_priority\<close>
  through the table.
\<close>

fun select_scan :: "ProcessControlBlock list \<Rightarrow> int option \<Rightarrow> int \<Rightarrow> int option" where
  "select_scan [] best_process highest_priority = best_process"
| "select_scan (pcb # rest) best_process highest_priority =
     (if state pcb = PROCESS_READY \<and> priority pcb > highest_priority
      then select_scan rest (Some (pid pcb)) (priority pcb)
      else select_scan rest best_process highest_priority)"

definition select_next_process :: "ProcessManager \<Rightarrow> int option" where
  "select_next_process s = select_scan (process_table s) None (- 1)"

definition context_switch ::
  "int option \<Rightarrow> int option \<Rightarrow> ProcessManager \<Rightarrow> ProcessManager option" where
  "context_switch old_proc new_proc s =
     (case (case old_proc of
              None \<Rightarrow> Some s
            | Some old \<Rightarrow>
                (case find_pcb old (process_table s) of
                   None \<Rightarrow> None
                 | Some _ \<Rightarrow>
                     Some (s\<lparr>process_table :=
                       update_pcb old (\<lambda>pcb. pcb\<lparr>state := PROCESS_READY\<rparr>) (process_table s)\<rparr>))) of
        None \<Rightarrow> None
      | Some s' \<Rightarrow>
          (case new_proc of
             None \<Rightarrow> Some s'
           | Some new \<Rightarrow>
               Some (s'\<lparr>current_process := Some new,
                        process_table :=
                          update_pcb new (\<lambda>pcb. pcb\<lparr>state := PROCESS_RUNNING\<rparr>)
                            (process_table s')\<rparr>)))"

definition schedule :: "ProcessManager \<Rightarrow> ProcessManager option" where
  "schedule s =
     (if \<not> scheduler_running s then Some s
      else
        case select_next_process s of
          None \<Rightarrow> Some s
        | Some next_process \<Rightarrow>
            if Some next_process \<noteq> current_process s
            then context_switch (current_process s) (Some next_process) s
            else Some s)"

text \<open>
  \<open>send_signal\<close> locks \<open>process_mutex\<close> and, for a known pid and signal 9, 19 or 18,
  calls \<open>terminate_process\<close>, \<open>suspend_process\<close> or \<open>resume_process\<close> while it holds
  it; each of them locks \<open>process_mutex\<close> first. Locking a \<open>std::mutex\<close> that the thread
  owns is undefined behaviour (the thread waits for itself): the inner call does not
  begin its work and \<open>send_signal\<close> does not return, \<open>None\<close>.
\<close>

definition while_locked :: "'a \<Rightarrow> 'a option" where
  "while_locked call = None"

definition send_signal :: "int \<Rightarrow> int \<Rightarrow> ProcessManager \<Rightarrow> (bool \<times> ProcessManager) option" where
  "send_signal p signal s =
     (case find_pcb p (process_table s) of
        Some _ \<Rightarrow>
          if signal = 9 then while_locked (terminate_process p s)
          else if signal = 19 then while_locked (suspend_process p s)
          else if signal = 18 then while_locked (resume_process p s)
          else Some (True, s)
      | None \<Rightarrow> Some (False, s))"

subsection \<open>The execution unit of a process\<close>

text \<open>
  \<open>execute_process(pcb)\<close> runs in a thread of its own and takes no lock. Its writes to
  the control block are three steps that interleave with the manager's operations: the
  first statement \<open>pcb->state = PROCESS_RUNNING\<close>, an iteration of the loop (entered
  while neither \<open>should_terminate\<close> nor \<open>PROCESS_TERMINATED\<close> holds) adding the
  simulated work time to \<open>cpu_time\<close>, and the last statement
  \<open>pcb->state = PROCESS_TERMINATED\<close>, reached when the loop condition fails or on the
  random \<open>break\<close>. A step that the unit cannot take in its phase is \<open>None\<close>.
\<close>

definition exec_begin :: "int \<Rightarrow> ProcessManager \<Rightarrow> ProcessManager option" where
  "exec_begin p s =
     (case find_pcb p (process_table s) of
        None \<Rightarrow> None
      | Some pcb \<Rightarrow>
          if process_thread pcb = Not_started
          then Some (s\<lparr>process_table :=
                 update_pcb p (\<lambda>pcb. pcb\<lparr>state := PROCESS_RUNNING, process_thread := Started\<rparr>)
                   (process_table s)\<rparr>)
          else None)"

definition exec_work :: "int \<Rightarrow> 64 word \<Rightarrow> ProcessManager \<Rightarrow> ProcessManager option" where
  "exec_work p work_time s =
     (case find_pcb p (process_table s) of
        None \<Rightarrow> None
      | Some pcb \<Rightarrow>
          if process_thread pcb = Started \<and> \<not> should_terminate pcb
             \<and> state pcb \<noteq> PROCESS_TERMINATED
          then Some (s\<lparr>process_table :=
                 update_pcb p (\<lambda>pcb. pcb\<lparr>cpu_time := cpu_time pcb + work_time\<rparr>)
                   (process_table s)\<rparr>)
          else None)"

definition exec_end :: "int \<Rightarrow> ProcessManager \<Rightarrow> ProcessManager option" where
  "exec_end p s =
     (case find_pcb p (process_table s) of
        None \<Rightarrow> None
      | Some pcb \<Rightarrow>
          if process_thread pcb = Started
          then Some (s\<lparr>process_table :=
                 update_pcb p (\<lambda>pcb. pcb\<lparr>state := PROCESS_TERMINATED, process_thread := Finished\<rparr>)
                   (process_table s)\<rparr>)
          else None)"

section \<open>The KILL system call (syscalls.cpp, kernel.cpp)\<close>

text \<open>
  \<open>sys_kill\<close> reads \<open>pid\<close> and \<open>signal\<close> from \<open>arg1\<close> and \<open>arg2\<close> by
  \<open>static_cast<int>\<close> and calls \<open>kernel->terminate_process(pid)\<close>, which forwards to
  the process manager.
\<close>

record syscall_params =
  arg1 :: "64 word"
  arg2 :: "64 word"

definition to_int :: "64 word \<Rightarrow> int" where
  "to_int w = sint (ucast w :: 32 word)"

definition sys_kill :: "syscall_params \<Rightarrow> ProcessManager \<Rightarrow> int \<times> ProcessManager" where
  "sys_kill params s =
     (let p = to_int (arg1 params);
          signal = to_int (arg2 params);
          (terminated, s') = terminate_process p s
      in (if terminated then 0 else - 1, s'))"

section \<open>Runs of the two managers\<close>

text \<open>
  A call of the public interface of the memory manager, with its arguments;
  \<open>M_initialize m\<close> carries what \<open>std::malloc\<close> returns to \<open>initialize\<close>. A run
  applies a list of calls in order and stops at the first call with undefined behaviour.
  \<open>coalesce_free_blocks\<close> is private and runs inside \<open>deallocate\<close> and
  \<open>deallocate_process_memory\<close>.
\<close>

datatype mm_op =
    M_initialize "64 word"
  | M_allocate "64 word"
  | M_allocate_aligned "64 word" "64 word"
  | M_allocate_for_process int "64 word"
  | M_deallocate "64 word"
  | M_deallocate_process_memory int
  | M_allocate_virtual_page
  | M_free_virtual_page "64 word"

fun mm_step ::
  "(MemoryBlock list \<Rightarrow> MemoryBlock list) \<Rightarrow> mm_op \<Rightarrow> MemoryManager \<Rightarrow> fault + MemoryManager" where
  "mm_step srt (M_initialize m) s = Inr (snd (initialize m s))"
| "mm_step srt (M_allocate sz) s = map_sum id snd (allocate sz s)"
| "mm_step srt (M_allocate_aligned sz alignment) s = map_sum id snd (allocate_aligned sz alignment s)"
| "mm_step srt (M_allocate_for_process owner sz) s = map_sum id snd (allocate_for_process owner sz s)"
| "mm_step srt (M_deallocate ptr) s = map_sum id snd (deallocate srt ptr s)"
| "mm_step srt (M_deallocate_process_memory owner) s = deallocate_process_memory srt owner s"
| "mm_step srt M_allocate_virtual_page s = map_sum id snd (allocate_virtual_page s)"
| "mm_step srt (M_free_virtual_page page) s = free_virtual_page srt page s"

fun mm_run ::
  "(MemoryBlock list \<Rightarrow> MemoryBlock list) \<Rightarrow> mm_op list \<Rightarrow> MemoryManager \<Rightarrow> fault + MemoryManager" where
  "mm_run srt [] s = Inr s"
| "mm_run srt (c # cs) s = (case mm_step srt c s of Inl f \<Rightarrow> Inl f | Inr s' \<Rightarrow> mm_run srt cs s')"

fun is_initialize :: "mm_op \<Rightarrow> bool" where
  "is_initialize (M_initialize m) = True"
| "is_initialize c = False"

text \<open>The arena after \<open>initialize\<close> on a new manager, with a pool at \<open>0x10000000\<close>.\<close>

definition fresh_arena :: MemoryManager where
  "fresh_arena = snd (initialize 0x10000000 MemoryManager_new)"

text \<open>
  A call of the process manager, or a step of the execution unit of a process
  (\<open>X_begin\<close>, \<open>X_work\<close>, \<open>X_end\<close>). \<open>P_create_process path m\<close> carries what
  \<open>std::malloc\<close> returns to \<open>load_executable\<close>. A run collects what the calls returned
  and is \<open>None\<close> once a call is undefined or does not return.
\<close>

datatype pm_op =
    P_initialize
  | P_create_process string "64 word"
  | P_terminate_process int
  | P_suspend_process int
  | P_resume_process int
  | P_set_process_priority int int
  | P_schedule
  | P_send_signal int int
  | X_begin int
  | X_work int "64 word"
  | X_end int

datatype pm_result = R_void | R_bool bool | R_pid int

fun pm_step :: "pm_op \<Rightarrow> ProcessManager \<Rightarrow> (pm_result \<times> ProcessManager) option" where
  "pm_step P_initialize s = Some (R_bool (fst (pm_initialize s)), snd (pm_initialize s))"
| "pm_step (P_create_process path m) s =
     map_option (\<lambda>(p, s'). (R_pid p, s')) (create_process path m s)"
| "pm_step (P_terminate_process p) s =
     Some (R_bool (fst (terminate_process p s)), snd (terminate_process p s))"
| "pm_step (P_suspend_process p) s =
     Some (R_bool (fst (suspend_process p s)), snd (suspend_process p s))"
| "pm_step (P_resume_process p) s =
     Some (R_bool (fst (resume_process p s)), snd (resume_process p s))"
| "pm_step (P_set_process_priority p prio) s = Some (R_void, set_process_priority p prio s)"
| "pm_step P_schedule s = map_option (Pair R_void) (schedule s)"
| "pm_step (P_send_signal p signal) s =
     map_option (\<lambda>(sent, s'). (R_bool sent, s')) (send_signal p signal s)"
| "pm_step (X_begin p) s = map_option (Pair R_void) (exec_begin p s)"
| "pm_step (X_work p work_time) s = map_option (Pair R_void) (exec_work p work_time s)"
| "pm_step (X_end p) s = map_option (Pair R_void) (exec_end p s)"

fun pm_run :: "pm_op list \<Rightarrow> ProcessManager \<Rightarrow> (pm_result list \<times> ProcessManager) option" where
  "pm_run [] s = Some ([], s)"
| "pm_run (c # cs) s =
     (case pm_step c s of
        None \<Rightarrow> None
      | Some (r, s') \<Rightarrow> map_option (\<lambda>(rs, s''). (r # rs, s'')) (pm_run cs s'))"

text \<open>The pids that successful \<open>create_process\<close> calls returned, in order.\<close>

fun created_pids :: "pm_result list \<Rightarrow> int list" where
  "created_pids [] = []"
| "created_pids (R_pid p # rs) = (if p = - 1 then created_pids rs else p # created_pids rs)"
| "created_pids (r # rs) = created_pids rs"

text \<open>The calls of the manager itself, as opposed to the steps of execution units.\<close>

fun manager_op :: "pm_op \<Rightarrow> bool" where
  "manager_op (X_begin p) = False"
| "manager_op (X_work p work_time) = False"
| "manager_op (X_end p) = False"
| "manager_op c = True"

section \<open>Properties of the block list\<close>

text \<open>
  No two neighbours of the list are both free with the first one ending where the
  second one starts: the condition under which \<open>coalesce_free_blocks\<close> merges.
\<close>

fun no_adjacent_free :: "MemoryBlock list \<Rightarrow> bool" where
  "no_adjacent_free (cur # nxt # rest) =
     (\<not> (is_free cur \<and> is_free nxt \<and> address cur + size_b cur = address nxt)
      \<and> no_adjacent_free (nxt # rest))"
| "no_adjacent_free bs = True"

text \<open>
  The vector holds one block, the whole pool, and has no spare capacity: the arena as
  \<open>initialize\<close> leaves a new manager, allocated or not.
\<close>

definition one_block :: "MemoryManager \<Rightarrow> bool" where
  "one_block s =
     (blocks_capacity s = 1
      \<and> (case memory_blocks s of
            [b] \<Rightarrow> address b = memory_pool s \<and> size_b b = pool_size s
          | _ \<Rightarrow> False))"

text \<open>
  The arena with the whole pool allocated (\<open>allocate(16777216)\<close> splits nothing) and
  mapped at the first virtual page.
\<close>

definition whole_pool_mapped :: MemoryManager where
  "whole_pool_mapped =
     fresh_arena
       \<lparr>memory_blocks := [\<lparr>address = 0x10000000, size_b = 0x1000000, is_free = False, process_id = - 1\<rparr>],
        allocated_blocks := [0x10000000 \<mapsto> 0x1000000],
        page_table := (page_table fresh_arena)
           [0 := \<lparr>physical_address = 0x10000, present = True, writable = True, user_accessible = True\<rparr>]\<rparr>"

section \<open>Properties of the process table\<close>

text \<open>
  \<open>first_max_ready table i\<close>: the record at index \<open>i\<close> is READY, no READY record
  has a higher priority, and every READY record before it has a lower one.
\<close>

definition first_max_ready :: "ProcessControlBlock list \<Rightarrow> nat \<Rightarrow> bool" where
  "first_max_ready table i =
     (i < length table \<and> state (table ! i) = PROCESS_READY
      \<and> (\<forall>j<length table. state (table ! j) = PROCESS_READY \<longrightarrow> priority (table ! j) \<le> priority (table ! i))
      \<and> (\<forall>j<i. state (table ! j) = PROCESS_READY \<longrightarrow> priority (table ! j) < priority (table ! i)))"

text \<open>
  The table that \<open>context_switch\<close> leaves, and what it means for the records:
  \<open>context_switched new s s'\<close> says that \<open>new\<close> is current and RUNNING in \<open>s'\<close>,
  that the record that was current in \<open>s\<close>, when it was RUNNING, is READY, and that
  every record that is neither of the two is as in \<open>s\<close>. It says nothing of a record
  that was current without being RUNNING.
\<close>

definition switched_table :: "int option \<Rightarrow> int \<Rightarrow> ProcessControlBlock list \<Rightarrow> ProcessControlBlock list" where
  "switched_table old new table =
     map (\<lambda>pcb. if pid pcb = new then pcb\<lparr>state := PROCESS_RUNNING\<rparr>
                else if Some (pid pcb) = old then pcb\<lparr>state := PROCESS_READY\<rparr>
                else pcb) table"

definition context_switched :: "int \<Rightarrow> ProcessManager \<Rightarrow> ProcessManager \<Rightarrow> bool" where
  "context_switched new s s' =
     (current_process s' = Some new \<and> next_pid s' = next_pid s
      \<and> scheduler_running s' = scheduler_running s
      \<and> length (process_table s') = length (process_table s)
      \<and> (\<forall>k<length (process_table s).
            let r = process_table s ! k; r' = process_table s' ! k
            in (pid r = new \<longrightarrow> r' = r\<lparr>state := PROCESS_RUNNING\<rparr>)
             \<and> (pid r \<noteq> new \<and> current_process s = Some (pid r) \<and> state r = PROCESS_RUNNING
                  \<longrightarrow> r' = r\<lparr>state := PROCESS_READY\<rparr>)
             \<and> (pid r \<noteq> new \<and> current_process s \<noteq> Some (pid r) \<longrightarrow> r' = r)))"

definition running :: "ProcessManager \<Rightarrow> ProcessControlBlock list" where
  "running s = filter (\<lambda>pcb. state pcb = PROCESS_RUNNING) (process_table s)"

definition pid_inv :: "ProcessManager \<Rightarrow> bool" where
  "pid_inv s = (distinct (map pid (process_table s))
                 \<and> list_all (\<lambda>pcb. 0 < pid pcb \<and> pid pcb < next_pid s) (process_table s)
                 \<and> 0 < next_pid s)"

definition sched_inv :: "ProcessManager \<Rightarrow> bool" where
  "sched_inv s = list_all (\<lambda>pcb. state pcb = PROCESS_RUNNING \<longrightarrow> current_process s = Some (pid pcb))
                   (process_table s)"

text \<open>The scenario of two READY records of priorities 5 and 10.\<close>

definition two_ready :: ProcessManager where
  "two_ready =
     \<lparr>process_table =
        [\<lparr>pid = 1, parent_pid = 0, state = PROCESS_READY, executable_path = ''a'',
          memory_base = 0x5000, memory_size = 65536, priority = 5, cpu_time = 0,
          process_thread = Not_started, should_terminate = False\<rparr>,
         \<lparr>pid = 2, parent_pid = 0, state = PROCESS_READY, executable_path = ''b'',
          memory_base = 0x6000, memory_size = 65536, priority = 10, cpu_time = 0,
          process_thread = Not_started, should_terminate = False\<rparr>],
      next_pid = 3, current_process = None, scheduler_running = True\<rparr>"

section \<open>Evaluation\<close>

lemmas mm_eval = MemoryManager_new_def MEMORY_POOL_SIZE_def PAGE_SIZE_def initialize_def
  push_back_capacity_def resize_table_def first_fit_allocate_def allocate_def allocate_aligned_def
  deallocate_def coalesce_free_blocks_def allocate_for_process_def deallocate_process_memory_def
  release_owned_def fresh_arena_def Let_def

lemmas pm_eval = ProcessManager_new_def pm_initialize_def create_process_def create_pcb_def
  load_executable_def INT_MAX_def find_pcb_def update_pcb_def terminate_process_def
  suspend_process_def resume_process_def set_process_priority_def schedule_def
  select_next_process_def context_switch_def send_signal_def while_locked_def exec_begin_def
  exec_work_def exec_end_def Let_def


lemma page_index_values:
  "page_index 0x1000000 = 0" "page_index 0x1000123 = 0" "page_index 0x1400000 = 1024"
  by (simp_all add: page_index_def PAGE_SIZE_def)

section \<open>Coalescing\<close>

lemma merge_adjacent_head:
  "\<exists>b' rest'. merge_adjacent (b # rest) = b' # rest' \<and> address b' = address b \<and> is_free b' = is_free b"
proof (induction rest arbitrary: b)
  case Nil
  show ?case by simp
next
  case (Cons nxt rest)
  show ?case
  proof (cases "is_free b \<and> is_free nxt \<and> address b + size_b b = address nxt")
    case True
    with Cons [of "b\<lparr>size_b := size_b b + size_b nxt\<rparr>"] show ?thesis by simp
  next
    case False
    then show ?thesis by auto
  qed
qed

lemma merge_adjacent_addresses:
  "address ` set (merge_adjacent bs) \<subseteq> address ` set bs"
  by (induction bs rule: merge_adjacent.induct) auto

lemma merge_adjacent_sorted:
  "sorted (map address bs) \<Longrightarrow> sorted (map address (merge_adjacent bs))"
proof (induction bs rule: merge_adjacent.induct)
  case (1 cur nxt rest)
  show ?case
  proof (cases "is_free cur \<and> is_free nxt \<and> address cur + size_b cur = address nxt")
    case True
    with 1 show ?thesis by auto
  next
    case False
    have "\<forall>y \<in> set (merge_adjacent (nxt # rest)). address cur \<le> address y"
      using merge_adjacent_addresses [of "nxt # rest"] "1.prems" by auto
    with False 1 show ?thesis by auto
  qed
qed simp_all

lemma merge_adjacent_no_adjacent_free: "no_adjacent_free (merge_adjacent bs)"
proof (induction bs rule: merge_adjacent.induct)
  case (1 cur nxt rest)
  show ?case
  proof (cases "is_free cur \<and> is_free nxt \<and> address cur + size_b cur = address nxt")
    case True
    with 1 show ?thesis by simp
  next
    case False
    obtain b' rest' where h: "merge_adjacent (nxt # rest) = b' # rest'"
      "address b' = address nxt" "is_free b' = is_free nxt"
      using merge_adjacent_head by blast
    with False 1 show ?thesis by auto
  qed
qed simp_all

lemma merge_adjacent_fixed: "no_adjacent_free bs \<Longrightarrow> merge_adjacent bs = bs"
  by (induction bs rule: merge_adjacent.induct) auto

lemma merge_adjacent_not_Nil: "bs \<noteq> [] \<Longrightarrow> merge_adjacent bs \<noteq> []"
proof (cases bs)
  case (Cons b rest)
  then show ?thesis using merge_adjacent_head [of b rest] by auto
qed simp

lemma merge_adjacent_distinct:
  "distinct (map address bs) \<Longrightarrow> distinct (map address (merge_adjacent bs))"
proof (induction bs rule: merge_adjacent.induct)
  case (1 cur nxt rest)
  show ?case
  proof (cases "is_free cur \<and> is_free nxt \<and> address cur + size_b cur = address nxt")
    case True
    with 1 show ?thesis by auto
  next
    case False
    have "address cur \<notin> address ` set (merge_adjacent (nxt # rest))"
      using merge_adjacent_addresses [of "nxt # rest"] "1.prems" by auto
    with False 1 show ?thesis by auto
  qed
qed simp_all

text \<open>
  What \<open>std::sort\<close> may be: the insertion sort by address is one such function, and on
  blocks of pairwise different addresses all of them agree.
\<close>

lemma sort_key_sorts_by_address: "sorts_by_address (sort_key address)"
  by (simp add: sorts_by_address_def)

lemma sorts_by_address_mset: "sorts_by_address srt \<Longrightarrow> mset (srt bs) = mset bs"
  by (simp add: sorts_by_address_def)

lemma sorts_by_address_sorted: "sorts_by_address srt \<Longrightarrow> sorted (map address (srt bs))"
  by (simp add: sorts_by_address_def)

lemma sorts_by_address_Nil: "sorts_by_address srt \<Longrightarrow> srt [] = []"
  using sorts_by_address_mset [of srt "[]"] by simp

lemma sorts_by_address_single: "sorts_by_address srt \<Longrightarrow> srt [b] = [b]"
  using sorts_by_address_mset [of srt "[b]"] by simp

lemma sorted_permutation_unique:
  assumes "distinct (map address bs)" "mset cs = mset bs" "sorted (map address cs)"
  shows "cs = sort_key address bs"
proof -
  let ?ds = "sort_key address bs"
  have set_eq: "set cs = set bs" using assms(2) by (rule mset_eq_setD)
  have "mset (map address cs) = mset (map address bs)" using assms(2) by simp
  then have dc: "distinct (map address cs)"
    using assms(1) mset_eq_imp_distinct_iff by blast
  have dd: "distinct (map address ?ds)" using assms(1) by (simp add: distinct_map)
  have "map address cs = map address ?ds"
    by (rule sorted_distinct_set_unique [OF assms(3) dc _ dd]) (simp_all add: set_eq)
  moreover have "inj_on address (set cs \<union> set ?ds)"
    using assms(1) set_eq by (simp add: distinct_map)
  ultimately show ?thesis by (simp add: inj_on_map_eq_map)
qed

lemma sorts_by_address_distinct:
  assumes "sorts_by_address srt" "distinct (map address bs)"
  shows "srt bs = sort_key address bs"
  using assms(2) sorts_by_address_mset [OF assms(1)] sorts_by_address_sorted [OF assms(1)]
  by (rule sorted_permutation_unique)

text \<open>
  On a vector that is not empty and holds no two blocks at one address, whatever
  \<open>std::sort\<close> does with ties: the call returns the blocks sorted by address with
  abutting free neighbours merged, and a second call returns the same list.
\<close>

lemma coalesce_free_blocks_idempotent:
  assumes "sorts_by_address srt" "bs \<noteq> []" "distinct (map address bs)"
  shows "coalesce_free_blocks srt bs = Inr (merge_adjacent (sort_key address bs))
         \<and> coalesce_free_blocks srt (merge_adjacent (sort_key address bs))
             = Inr (merge_adjacent (sort_key address bs))
         \<and> sorted (map address (merge_adjacent (sort_key address bs)))
         \<and> no_adjacent_free (merge_adjacent (sort_key address bs))"
proof -
  let ?bs' = "merge_adjacent (sort_key address bs)"
  have ne: "sort_key address bs \<noteq> []" using assms(2) by (cases bs) auto
  have 1: "coalesce_free_blocks srt bs = Inr ?bs'"
    using assms by (simp add: coalesce_free_blocks_def sorts_by_address_distinct)
  have 2: "sorted (map address ?bs')" by (rule merge_adjacent_sorted) simp
  have 3: "no_adjacent_free ?bs'" by (rule merge_adjacent_no_adjacent_free)
  have 4: "?bs' \<noteq> []" using ne by (rule merge_adjacent_not_Nil)
  have "distinct (map address (sort_key address bs))" using assms(3) by (simp add: distinct_map)
  then have 5: "distinct (map address ?bs')" by (rule merge_adjacent_distinct)
  have "srt ?bs' = ?bs'"
    using sorts_by_address_distinct [OF assms(1) 5] 2 by (simp add: sort_key_id_if_sorted)
  then have "coalesce_free_blocks srt ?bs' = Inr ?bs'"
    using 3 4 by (simp add: coalesce_free_blocks_def merge_adjacent_fixed)
  with 1 2 3 show ?thesis by simp
qed

text \<open>
  With two different blocks at one address the result depends on the order the sort
  gives them: under a sort that reverses ties, each call swaps the two.
\<close>

lemma coalesce_tie_order:
  "sorts_by_address (sort_key address \<circ> rev)
   \<and> coalesce_free_blocks (sort_key address \<circ> rev)
       [\<lparr>address = 0x1000, size_b = 0, is_free = False, process_id = 1\<rparr>,
        \<lparr>address = 0x1000, size_b = 8, is_free = True, process_id = - 1\<rparr>]
     = Inr [\<lparr>address = 0x1000, size_b = 8, is_free = True, process_id = - 1\<rparr>,
            \<lparr>address = 0x1000, size_b = 0, is_free = False, process_id = 1\<rparr>]
   \<and> coalesce_free_blocks (sort_key address \<circ> rev)
       [\<lparr>address = 0x1000, size_b = 8, is_free = True, process_id = - 1\<rparr>,
        \<lparr>address = 0x1000, size_b = 0, is_free = False, process_id = 1\<rparr>]
     = Inr [\<lparr>address = 0x1000, size_b = 0, is_free = False, process_id = 1\<rparr>,
            \<lparr>address = 0x1000, size_b = 8, is_free = True, process_id = - 1\<rparr>]"
  by (simp add: sorts_by_address_def coalesce_free_blocks_def)


section \<open>The first split after initialize\<close>

lemma one_blockE:
  assumes "one_block s"
  obtains b where "memory_blocks s = [b]" "address b = memory_pool s" "size_b b = pool_size s"
    "blocks_capacity s = 1"
  using assms by (auto simp: one_block_def split: list.splits)

lemma one_block_initialize:
  "m \<noteq> 0 \<Longrightarrow> one_block (snd (initialize m MemoryManager_new))"
  by (simp add: one_block_def initialize_def MemoryManager_new_def push_back_capacity_def)

lemma allocate_split_dangles:
  assumes "one_block s" "is_free (hd (memory_blocks s))" "sz \<noteq> 0" "(sz + 7) AND NOT 7 < pool_size s"
  shows "allocate sz s = Inl Dangling_reference"
proof -
  from assms(1) obtain b where b: "memory_blocks s = [b]" "size_b b = pool_size s" "blocks_capacity s = 1"
    by (rule one_blockE)
  with assms(2) have "is_free b" by simp
  with b assms(3,4) show ?thesis
    by (simp add: allocate_def first_fit_allocate_def Let_def less_imp_le)
qed

text \<open>
  Claim C1 says that the blocks tile the arena, and that used plus free memory is the
  total, after every sequence of allocator operations on an initialised arena. After
  \<open>initialize\<close> the vector holds one block and has capacity 1. \<open>allocate(100)\<close>
  splits that block: \<open>first_fit_allocate\<close> pushes the tail, the vector moves its
  elements to new storage, and the function then writes \<open>block.size\<close> and
  \<open>block.is_free\<close> and reads \<open>block.address\<close> through the reference to the old
  storage. The first allocation of less than the whole pool has undefined behaviour.
\<close>

theorem allocate_after_initialize:
  "fst (initialize 0x10000000 MemoryManager_new)
   \<and> memory_blocks fresh_arena
       = [\<lparr>address = 0x10000000, size_b = 0x1000000, is_free = True, process_id = - 1\<rparr>]
   \<and> blocks_capacity fresh_arena = 1
   \<and> get_used_memory fresh_arena + get_free_memory fresh_arena = get_total_memory fresh_arena
   \<and> mm_run srt [M_allocate 100] fresh_arena = Inl Dangling_reference"
  by (simp add: mm_eval get_used_memory_def get_free_memory_def get_total_memory_def)

text \<open>
  Claim C4 says that \<open>allocate(size)\<close> returns the base address of the first free block
  that is large enough. On the initialised arena the first free block that holds 100
  bytes is the pool block at \<open>0x10000000\<close>, the vector is full, and \<open>allocate(100)\<close>
  returns what it reads through the dangling reference \<open>block\<close>. Only a request that
  needs no split, of the size of the whole pool, returns the base address of the block.
\<close>

theorem allocate_reads_dangling_reference:
  "find (\<lambda>b. is_free b \<and> (100 + 7) AND NOT 7 \<le> size_b b) (memory_blocks fresh_arena)
     = Some \<lparr>address = 0x10000000, size_b = 0x1000000, is_free = True, process_id = - 1\<rparr>
   \<and> length (memory_blocks fresh_arena) = blocks_capacity fresh_arena
   \<and> allocate 100 fresh_arena = Inl Dangling_reference
   \<and> map_sum id fst (allocate 0x1000000 fresh_arena) = Inr 0x10000000"
  by (simp add: mm_eval)

text \<open>
  Every other call keeps the one block: from one \<open>initialize\<close> on, a run either meets
  the dangling reference or never holds more than the pool block, and
  \<open>allocate_virtual_page\<close> never returns a page.
\<close>

lemma one_block_allocate:
  assumes "one_block s" "allocate sz s = Inr (p, s')"
  shows "one_block s'"
proof -
  from assms(1) obtain b where b: "memory_blocks s = [b]" "address b = memory_pool s"
    "size_b b = pool_size s" "blocks_capacity s = 1"
    by (rule one_blockE)
  with assms(2) show ?thesis
    by (auto simp: allocate_def first_fit_allocate_def Let_def one_block_def
        split: if_splits sum.splits prod.splits)
qed

lemma one_block_allocate_aligned:
  assumes "one_block s" "allocate_aligned sz al s = Inr (p, s')"
  shows "one_block s'"
  using assms one_block_allocate
  by (auto simp: allocate_aligned_def split: if_splits sum.splits prod.splits)

lemma one_block_allocate_for_process:
  assumes "one_block s" "allocate_for_process owner sz s = Inr (p, s')"
  shows "one_block s'"
proof -
  obtain q s1 where a: "allocate sz s = Inr (q, s1)"
    using assms(2) by (auto simp: allocate_for_process_def split: sum.splits)
  have 1: "one_block s1" using assms(1) a by (rule one_block_allocate)
  then obtain b where b: "memory_blocks s1 = [b]" "address b = memory_pool s1"
    "size_b b = pool_size s1" "blocks_capacity s1 = 1"
    by (rule one_blockE)
  with assms(2) a 1 show ?thesis
    by (auto simp: allocate_for_process_def one_block_def split: if_splits)
qed

lemma one_block_coalesce:
  assumes "sorts_by_address srt" "bs = [b]"
  shows "coalesce_free_blocks srt bs = Inr [b]"
  using assms by (simp add: coalesce_free_blocks_def sorts_by_address_single)

lemma one_block_deallocate:
  assumes "sorts_by_address srt" "one_block s" "deallocate srt ptr s = Inr (r, s')"
  shows "one_block s'"
proof -
  from assms(2) obtain b where b: "memory_blocks s = [b]" "address b = memory_pool s"
    "size_b b = pool_size s" "blocks_capacity s = 1"
    by (rule one_blockE)
  have "\<exists>b'. mark_free ptr [b] = [b'] \<and> address b' = address b \<and> size_b b' = size_b b" by simp
  then obtain b' where m: "mark_free ptr (memory_blocks s) = [b']" "address b' = address b"
    "size_b b' = size_b b"
    using b(1) by auto
  have c: "coalesce_free_blocks srt (mark_free ptr (memory_blocks s)) = Inr [b']"
    using assms(1) m(1) by (rule one_block_coalesce)
  show ?thesis
  proof (cases "ptr = 0 \<or> allocated_blocks s ptr = None")
    case True
    with assms(2,3) show ?thesis by (auto simp: deallocate_def split: if_splits)
  next
    case False
    then obtain sz where "ptr \<noteq> 0" "allocated_blocks s ptr = Some sz" by auto
    with assms(3) have "memory_blocks s' = [b']" "blocks_capacity s' = blocks_capacity s"
      "memory_pool s' = memory_pool s" "pool_size s' = pool_size s"
      unfolding deallocate_def c by auto
    with b m(2,3) show ?thesis by (simp add: one_block_def)
  qed
qed

lemma one_block_deallocate_process_memory:
  assumes "sorts_by_address srt" "one_block s" "deallocate_process_memory srt owner s = Inr s'"
  shows "one_block s'"
proof -
  from assms(2) obtain b where b: "memory_blocks s = [b]" "address b = memory_pool s"
    "size_b b = pool_size s" "blocks_capacity s = 1"
    by (rule one_blockE)
  have c: "coalesce_free_blocks srt (map (release_owned owner) (memory_blocks s))
             = Inr [release_owned owner b]"
    by (rule one_block_coalesce [OF assms(1)]) (simp add: b(1))
  from assms(3) have "memory_blocks s' = [release_owned owner b]"
    "blocks_capacity s' = blocks_capacity s" "memory_pool s' = memory_pool s"
    "pool_size s' = pool_size s"
    unfolding deallocate_process_memory_def c by auto
  with b show ?thesis by (simp add: one_block_def release_owned_def)
qed

lemma one_block_page_table [simp]: "one_block (s\<lparr>page_table := t\<rparr>) = one_block s"
  by (simp add: one_block_def split: list.splits)

lemma one_block_next_virtual_address [simp]:
  "one_block (s\<lparr>next_virtual_address := v\<rparr>) = one_block s"
  by (simp add: one_block_def split: list.splits)

lemma one_block_allocate_virtual_page:
  assumes "one_block s" "allocate_virtual_page s = Inr (p, s')"
  shows "one_block s'"
  using assms one_block_allocate_aligned [OF assms(1)]
  by (auto simp: allocate_virtual_page_def map_page_def Let_def split: if_splits sum.splits prod.splits)

lemma one_block_free_virtual_page:
  assumes "sorts_by_address srt" "one_block s" "free_virtual_page srt page s = Inr s'"
  shows "one_block s'"
proof (cases "virtual_to_physical page s = 0")
  case True
  with assms(2,3) show ?thesis by (simp add: free_virtual_page_def)
next
  case False
  have 1: "one_block (unmap_page page s)" using assms(2) by (simp add: unmap_page_def)
  from False assms(3) obtain r where
    "deallocate srt (virtual_to_physical page s) (unmap_page page s) = Inr (r, s')"
    by (auto simp: free_virtual_page_def Let_def split: sum.splits)
  with assms(1) 1 show ?thesis by (rule one_block_deallocate)
qed

lemma one_block_step:
  assumes "sorts_by_address srt" "one_block s" "\<not> is_initialize c" "mm_step srt c s = Inr s'"
  shows "one_block s'"
proof (cases c)
  case (M_initialize m)
  with assms(3) show ?thesis by simp
next
  case (M_allocate sz)
  with assms(4) obtain p where "allocate sz s = Inr (p, s')" by (cases "allocate sz s") auto
  with assms(2) show ?thesis by (rule one_block_allocate)
next
  case (M_allocate_aligned sz al)
  with assms(4) obtain p where "allocate_aligned sz al s = Inr (p, s')"
    by (cases "allocate_aligned sz al s") auto
  with assms(2) show ?thesis by (rule one_block_allocate_aligned)
next
  case (M_allocate_for_process owner sz)
  with assms(4) obtain p where "allocate_for_process owner sz s = Inr (p, s')"
    by (cases "allocate_for_process owner sz s") auto
  with assms(2) show ?thesis by (rule one_block_allocate_for_process)
next
  case (M_deallocate ptr)
  with assms(4) obtain r where "deallocate srt ptr s = Inr (r, s')"
    by (cases "deallocate srt ptr s") auto
  with assms(1,2) show ?thesis by (rule one_block_deallocate)
next
  case (M_deallocate_process_memory owner)
  with assms(4) have "deallocate_process_memory srt owner s = Inr s'" by simp
  with assms(1,2) show ?thesis by (rule one_block_deallocate_process_memory)
next
  case M_allocate_virtual_page
  with assms(4) obtain p where "allocate_virtual_page s = Inr (p, s')"
    by (cases "allocate_virtual_page s") auto
  with assms(2) show ?thesis by (rule one_block_allocate_virtual_page)
next
  case (M_free_virtual_page page)
  with assms(4) have "free_virtual_page srt page s = Inr s'" by simp
  with assms(1,2) show ?thesis by (rule one_block_free_virtual_page)
qed

lemma one_block_run:
  assumes "sorts_by_address srt" "one_block s" "list_all (\<lambda>c. \<not> is_initialize c) cs"
    "mm_run srt cs s = Inr s'"
  shows "one_block s'"
  using assms(2,3,4)
proof (induction cs arbitrary: s)
  case Nil
  then show ?case by simp
next
  case (Cons c cs)
  from Cons.prems(3) obtain s1 where 1: "mm_step srt c s = Inr s1" "mm_run srt cs s1 = Inr s'"
    by (cases "mm_step srt c s") auto
  have "one_block s1" using assms(1) Cons.prems(1) _ 1(1) by (rule one_block_step) (use Cons.prems(2) in simp)
  then show ?case using Cons.IH 1(2) Cons.prems(2) by simp
qed

lemma reachable_one_block:
  assumes "sorts_by_address srt" "m \<noteq> 0" "list_all (\<lambda>c. \<not> is_initialize c) cs"
    "mm_run srt cs (snd (initialize m MemoryManager_new)) = Inr s"
  shows "one_block s"
  using assms(1) one_block_initialize [OF assms(2)] assms(3,4) by (rule one_block_run)

lemma mm_step_pool_size:
  assumes "mm_step srt c s = Inr s'" "\<not> is_initialize c"
  shows "pool_size s' = pool_size s"
proof (cases c)
  case (M_initialize m)
  with assms(2) show ?thesis by simp
next
  case (M_allocate sz)
  with assms(1) show ?thesis
    by (auto simp: allocate_def Let_def split: if_splits sum.splits prod.splits)
next
  case (M_allocate_aligned sz al)
  with assms(1) show ?thesis
    by (auto simp: allocate_aligned_def allocate_def Let_def split: if_splits sum.splits prod.splits)
next
  case (M_allocate_for_process owner sz)
  with assms(1) show ?thesis
    by (auto simp: allocate_for_process_def allocate_def Let_def split: if_splits sum.splits prod.splits)
next
  case (M_deallocate ptr)
  with assms(1) show ?thesis
    by (auto simp: deallocate_def split: if_splits option.splits sum.splits)
next
  case (M_deallocate_process_memory owner)
  with assms(1) show ?thesis
    by (auto simp: deallocate_process_memory_def split: sum.splits)
next
  case M_allocate_virtual_page
  with assms(1) show ?thesis
    by (auto simp: allocate_virtual_page_def allocate_aligned_def allocate_def map_page_def Let_def
        split: if_splits sum.splits prod.splits)
next
  case (M_free_virtual_page page)
  with assms(1) show ?thesis
    by (auto simp: free_virtual_page_def deallocate_def unmap_page_def Let_def
        split: if_splits option.splits sum.splits)
qed

lemma mm_run_pool_size:
  assumes "mm_run srt cs s = Inr s'" "list_all (\<lambda>c. \<not> is_initialize c) cs"
  shows "pool_size s' = pool_size s"
  using assms
proof (induction cs arbitrary: s)
  case Nil
  then show ?case by simp
next
  case (Cons c cs)
  from Cons.prems(1) obtain s1 where 1: "mm_step srt c s = Inr s1" "mm_run srt cs s1 = Inr s'"
    by (cases "mm_step srt c s") auto
  from Cons.prems(2) have "\<not> is_initialize c" "list_all (\<lambda>c. \<not> is_initialize c) cs" by simp_all
  with 1 Cons.IH [of s1] mm_step_pool_size [of srt c s s1] show ?case by simp
qed

lemma allocate_one_block:
  assumes "one_block s" "sz \<noteq> 0" "(sz + 7) AND NOT 7 < pool_size s"
  shows "allocate sz s = Inl Dangling_reference \<or> allocate sz s = Inr (0, s)"
proof (cases "is_free (hd (memory_blocks s))")
  case True
  with assms show ?thesis by (simp add: allocate_split_dangles)
next
  case False
  from assms(1) obtain b where b: "memory_blocks s = [b]" by (rule one_blockE)
  with False assms(2) have "allocate sz s = Inr (0, s)"
    by (simp add: allocate_def first_fit_allocate_def Let_def)
  then show ?thesis by simp
qed

lemma allocate_virtual_page_one_block:
  assumes "one_block s" "8192 < pool_size s"
  shows "allocate_virtual_page s = Inl Dangling_reference \<or> allocate_virtual_page s = Inr (0, s)"
proof -
  have "allocate (PAGE_SIZE + PAGE_SIZE - 1) s = Inl Dangling_reference
        \<or> allocate (PAGE_SIZE + PAGE_SIZE - 1) s = Inr (0, s)"
    by (rule allocate_one_block [OF assms(1)]) (use assms(2) in \<open>simp_all add: PAGE_SIZE_def\<close>)
  then show ?thesis
    by (auto simp: allocate_virtual_page_def allocate_aligned_def PAGE_SIZE_def)
qed

lemma reachable_no_virtual_page:
  assumes "sorts_by_address srt" "m \<noteq> 0" "list_all (\<lambda>c. \<not> is_initialize c) cs"
    "mm_run srt cs (snd (initialize m MemoryManager_new)) = Inr s"
  shows "allocate_virtual_page s = Inl Dangling_reference \<or> allocate_virtual_page s = Inr (0, s)"
proof -
  have 1: "one_block s" using assms by (rule reachable_one_block)
  have "pool_size s = pool_size (snd (initialize m MemoryManager_new))"
    using assms(4,3) by (rule mm_run_pool_size)
  then have "8192 < pool_size s"
    by (simp add: initialize_def MemoryManager_new_def MEMORY_POOL_SIZE_def)
  with 1 show ?thesis by (rule allocate_virtual_page_one_block)
qed

section \<open>Invalid frees\<close>

text \<open>
  \<open>deallocate\<close> does nothing on a null pointer, and it reports an invalid free and
  changes nothing on a pointer with no allocation record, such as one it has freed before.
\<close>

lemma deallocate_null: "deallocate srt 0 s = Inr (Null_pointer, s)"
  by (simp add: deallocate_def)

lemma deallocate_no_record:
  "ptr \<noteq> 0 \<Longrightarrow> allocated_blocks s ptr = None \<Longrightarrow> deallocate srt ptr s = Inr (Invalid_free, s)"
  by (simp add: deallocate_def)

lemma deallocate_twice:
  assumes "deallocate srt ptr s = Inr (r, s')" "r = Freed \<or> r = No_block"
  shows "deallocate srt ptr s' = Inr (Invalid_free, s')"
proof -
  from assms have "ptr \<noteq> 0" "allocated_blocks s' ptr = None"
    by (auto simp: deallocate_def split: if_splits option.splits sum.splits)
  then show ?thesis by (rule deallocate_no_record)
qed

text \<open>
  Claim C7 says that \<open>deallocate\<close> of an address that \<open>deallocate_process_memory\<close>
  has released reports an invalid free and leaves block list and allocation records as
  they are. \<open>deallocate_process_memory\<close> frees the blocks of the owner and keeps their
  allocation records, which \<open>deallocate\<close> erases for the block it frees. Process 1
  allocates the whole pool (no split) and its memory is released: the record of
  \<open>0x10000000\<close> is still there, and \<open>deallocate(0x10000000)\<close> takes the path of a
  valid free, prints \<open>Freed\<close> and erases the record. This holds for every order that
  \<open>std::sort\<close> may give.
\<close>

theorem deallocate_after_process_release:
  assumes "sorts_by_address srt"
  shows "case mm_run srt [M_allocate_for_process 1 0x1000000, M_deallocate_process_memory 1] fresh_arena of
           Inl f \<Rightarrow> False
         | Inr s \<Rightarrow>
             memory_blocks s
               = [\<lparr>address = 0x10000000, size_b = 0x1000000, is_free = True, process_id = - 1\<rparr>]
             \<and> allocated_blocks s 0x10000000 = Some 0x1000000
             \<and> deallocate srt 0x10000000 s
                 = Inr (Freed, s\<lparr>allocated_blocks := (allocated_blocks s)(0x10000000 := None)\<rparr>)"
  using assms by (simp add: mm_eval sorts_by_address_single)

theorem deallocate_after_process_release_witness:
  "sorts_by_address (sort_key address)
   \<and> (case mm_run (sort_key address)
             [M_allocate_for_process 1 0x1000000, M_deallocate_process_memory 1] fresh_arena of
        Inl f \<Rightarrow> False
      | Inr s \<Rightarrow>
          memory_blocks s
            = [\<lparr>address = 0x10000000, size_b = 0x1000000, is_free = True, process_id = - 1\<rparr>]
          \<and> allocated_blocks s 0x10000000 = Some 0x1000000
          \<and> deallocate (sort_key address) 0x10000000 s
              = Inr (Freed, s\<lparr>allocated_blocks := (allocated_blocks s)(0x10000000 := None)\<rparr>))"
  using deallocate_after_process_release [OF sort_key_sorts_by_address]
  by (simp add: sort_key_sorts_by_address)

section \<open>Page translation\<close>










lemma whole_pool_mapped_reached:
  "case allocate 0x1000000 fresh_arena of
     Inl f \<Rightarrow> False
   | Inr (p, s1) \<Rightarrow> p = 0x10000000 \<and> snd (map_page 0x1000000 p s1) = whole_pool_mapped"
  by (simp add: mm_eval whole_pool_mapped_def map_page_def page_index_values)



section \<open>The scheduler\<close>

lemma select_scan_none:
  "\<forall>pcb\<in>set table. state pcb = PROCESS_READY \<longrightarrow> priority pcb \<le> hp
   \<Longrightarrow> select_scan table best hp = best"
  by (induction table arbitrary: best hp) auto

lemma first_max_ready_0:
  assumes "state pcb = PROCESS_READY"
    "\<forall>q\<in>set rest. state q = PROCESS_READY \<longrightarrow> priority q \<le> priority pcb"
  shows "first_max_ready (pcb # rest) 0"
  using assms by (auto simp: first_max_ready_def All_less_Suc2)

lemma first_max_ready_Suc:
  assumes "first_max_ready rest i"
    "state pcb = PROCESS_READY \<longrightarrow> priority pcb < priority (rest ! i)"
  shows "first_max_ready (pcb # rest) (Suc i)"
  using assms by (auto simp: first_max_ready_def All_less_Suc2)

lemma select_scan_some:
  assumes "\<exists>pcb\<in>set table. state pcb = PROCESS_READY \<and> hp < priority pcb"
  shows "\<exists>i. first_max_ready table i \<and> hp < priority (table ! i)
            \<and> select_scan table best hp = Some (pid (table ! i))"
  using assms
proof (induction table arbitrary: best hp)
  case Nil
  then show ?case by simp
next
  case (Cons pcb rest)
  show ?case
  proof (cases "state pcb = PROCESS_READY \<and> hp < priority pcb")
    case True
    show ?thesis
    proof (cases "\<exists>q\<in>set rest. state q = PROCESS_READY \<and> priority pcb < priority q")
      case True
      from Cons.IH [OF True, of "Some (pid pcb)"] obtain i where
        i: "first_max_ready rest i" "priority pcb < priority (rest ! i)"
           "select_scan rest (Some (pid pcb)) (priority pcb) = Some (pid (rest ! i))"
        by blast
      have "first_max_ready (pcb # rest) (Suc i)"
        using i(1,2) by (intro first_max_ready_Suc) auto
      moreover have "hp < priority ((pcb # rest) ! Suc i)"
        using i(2) \<open>state pcb = PROCESS_READY \<and> hp < priority pcb\<close> by simp
      moreover have "select_scan (pcb # rest) best hp = Some (pid ((pcb # rest) ! Suc i))"
        using i(3) \<open>state pcb = PROCESS_READY \<and> hp < priority pcb\<close> by simp
      ultimately show ?thesis by blast
    next
      case False
      then have le: "\<forall>q\<in>set rest. state q = PROCESS_READY \<longrightarrow> priority q \<le> priority pcb"
        by auto
      have "first_max_ready (pcb # rest) 0" using True le by (intro first_max_ready_0) auto
      moreover have "select_scan (pcb # rest) best hp = Some (pid ((pcb # rest) ! 0))"
        using True select_scan_none [OF le] by simp
      ultimately show ?thesis using True by auto
    qed
  next
    case False
    with Cons.prems have ex: "\<exists>q\<in>set rest. state q = PROCESS_READY \<and> hp < priority q" by auto
    from Cons.IH [OF ex, of best] obtain i where
      i: "first_max_ready rest i" "hp < priority (rest ! i)"
         "select_scan rest best hp = Some (pid (rest ! i))"
      by blast
    have "first_max_ready (pcb # rest) (Suc i)"
      using i(1,2) False by (intro first_max_ready_Suc) auto
    moreover have "select_scan (pcb # rest) best hp = Some (pid ((pcb # rest) ! Suc i))"
      using i(3) False by auto
    ultimately show ?thesis using i(2) by auto
  qed
qed

lemma find_pcb_None: "find_pcb p table = None \<longleftrightarrow> p \<notin> pid ` set table"
  by (auto simp: find_pcb_def find_None_iff)

lemma find_pcb_Some: "find_pcb p table = Some pcb \<Longrightarrow> pcb \<in> set table \<and> pid pcb = p"
  by (auto simp: find_pcb_def find_Some_iff)

lemma context_switch_table:
  assumes "case old of None \<Rightarrow> True | Some cur \<Rightarrow> cur \<in> pid ` set (process_table s)"
    "Some new \<noteq> old"
  shows "context_switch old (Some new) s =
           Some (s\<lparr>current_process := Some new,
                   process_table := switched_table old new (process_table s)\<rparr>)"
proof (cases old)
  case None
  then show ?thesis by (simp add: context_switch_def switched_table_def update_pcb_def)
next
  case (Some cur)
  with assms(1) have "find_pcb cur (process_table s) \<noteq> None" by (simp add: find_pcb_None)
  then obtain q where q: "find_pcb cur (process_table s) = Some q" by auto
  have "update_pcb new (\<lambda>pcb. pcb\<lparr>state := PROCESS_RUNNING\<rparr>)
          (update_pcb cur (\<lambda>pcb. pcb\<lparr>state := PROCESS_READY\<rparr>) (process_table s))
        = switched_table (Some cur) new (process_table s)"
    using assms(2) Some by (auto simp: update_pcb_def switched_table_def)
  then show ?thesis using Some q by (simp add: context_switch_def)
qed

lemma schedule_result:
  assumes "case current_process s of None \<Rightarrow> True | Some cur \<Rightarrow> cur \<in> pid ` set (process_table s)"
  shows "if scheduler_running s
            \<and> (\<exists>pcb\<in>set (process_table s). state pcb = PROCESS_READY \<and> 0 \<le> priority pcb)
         then \<exists>i. first_max_ready (process_table s) i
                \<and> schedule s =
                    Some (if current_process s = Some (pid (process_table s ! i)) then s
                          else s\<lparr>current_process := Some (pid (process_table s ! i)),
                                 process_table :=
                                   switched_table (current_process s) (pid (process_table s ! i))
                                     (process_table s)\<rparr>)
         else schedule s = Some s"
proof (cases "scheduler_running s
            \<and> (\<exists>pcb\<in>set (process_table s). state pcb = PROCESS_READY \<and> 0 \<le> priority pcb)")
  case True
  then have "\<exists>pcb\<in>set (process_table s). state pcb = PROCESS_READY \<and> - 1 < priority pcb" by auto
  from select_scan_some [OF this, of None] obtain i where
    i: "first_max_ready (process_table s) i"
       "select_next_process s = Some (pid (process_table s ! i))"
    by (auto simp: select_next_process_def)
  let ?n = "pid (process_table s ! i)"
  have "schedule s = Some (if current_process s = Some ?n then s
                          else s\<lparr>current_process := Some ?n,
                                 process_table := switched_table (current_process s) ?n (process_table s)\<rparr>)"
  proof (cases "current_process s = Some ?n")
    case True
    with i(2) \<open>scheduler_running s \<and> _\<close> show ?thesis by (simp add: schedule_def)
  next
    case False
    then have ne: "Some ?n \<noteq> current_process s" by auto
    show ?thesis using i(2) True False context_switch_table [OF assms ne]
      by (simp add: schedule_def)
  qed
  with i(1) have "\<exists>i. first_max_ready (process_table s) i
                \<and> schedule s =
                    Some (if current_process s = Some (pid (process_table s ! i)) then s
                          else s\<lparr>current_process := Some (pid (process_table s ! i)),
                                 process_table :=
                                   switched_table (current_process s) (pid (process_table s ! i))
                                     (process_table s)\<rparr>)"
    by blast
  then show ?thesis by (simp only: if_P [OF True])
next
  case False
  have "schedule s = Some s"
  proof (cases "scheduler_running s")
    case True
    with False have "\<forall>pcb\<in>set (process_table s). state pcb = PROCESS_READY \<longrightarrow> priority pcb \<le> - 1"
      by auto
    from select_scan_none [OF this, of None] show ?thesis
      by (simp add: schedule_def select_next_process_def)
  next
    case False
    then show ?thesis by (simp add: schedule_def)
  qed
  then show ?thesis by (simp only: if_not_P [OF False])
qed

lemma context_switched_table:
  "context_switched new s
     (s\<lparr>current_process := Some new,
        process_table := switched_table (current_process s) new (process_table s)\<rparr>)"
  by (auto simp: context_switched_def switched_table_def Let_def)

text \<open>
  Claim C2, amended. Let \<open>current_process\<close> be null or point to a record of the table.
  While the scheduler is running and some READY record has a priority of at least 0,
  \<open>schedule()\<close> selects the first READY record of maximal priority in table order. If
  \<open>current_process\<close> points to the selected record already, nothing changes;
  otherwise the selected record becomes RUNNING and current, the record that was
  current moves to READY if it was RUNNING, and every record other than these two
  stays as it is. If the scheduler is not running or no READY record has a priority of
  at least 0, nothing changes. In particular, with exactly two READY records of
  priorities 5 and 10, the scheduler running and \<open>current_process\<close> not pointing to the
  priority-10 record, that record becomes RUNNING and current.
\<close>

theorem schedule_selects:
  assumes "case current_process s of None \<Rightarrow> True | Some cur \<Rightarrow> cur \<in> pid ` set (process_table s)"
  shows "(if scheduler_running s
             \<and> (\<exists>pcb\<in>set (process_table s). state pcb = PROCESS_READY \<and> 0 \<le> priority pcb)
          then \<exists>i. first_max_ready (process_table s) i
                 \<and> (if current_process s = Some (pid (process_table s ! i))
                    then schedule s = Some s
                    else \<exists>s'. schedule s = Some s'
                           \<and> context_switched (pid (process_table s ! i)) s s')
          else schedule s = Some s)
       \<and> (\<forall>i j. i < length (process_table s) \<and> j < length (process_table s)
              \<and> state (process_table s ! i) = PROCESS_READY \<and> priority (process_table s ! i) = 5
              \<and> state (process_table s ! j) = PROCESS_READY \<and> priority (process_table s ! j) = 10
              \<and> (\<forall>k<length (process_table s).
                    state (process_table s ! k) = PROCESS_READY \<longrightarrow> k = i \<or> k = j)
              \<and> scheduler_running s \<and> current_process s \<noteq> Some (pid (process_table s ! j))
            \<longrightarrow> (\<exists>s'. schedule s = Some s' \<and> current_process s' = Some (pid (process_table s ! j))
                    \<and> state (process_table s' ! j) = PROCESS_RUNNING))"
proof (intro conjI allI impI)
  let ?t = "process_table s"
  let ?c = "scheduler_running s
             \<and> (\<exists>pcb\<in>set (process_table s). state pcb = PROCESS_READY \<and> 0 \<le> priority pcb)"
  note r = schedule_result [OF assms]
  show g: "if ?c
          then \<exists>i. first_max_ready ?t i
                 \<and> (if current_process s = Some (pid (?t ! i))
                    then schedule s = Some s
                    else \<exists>s'. schedule s = Some s' \<and> context_switched (pid (?t ! i)) s s')
          else schedule s = Some s"
  proof (cases ?c)
    case True
    from r obtain i where i: "first_max_ready ?t i"
      "schedule s = Some (if current_process s = Some (pid (?t ! i)) then s
                          else s\<lparr>current_process := Some (pid (?t ! i)),
                                 process_table := switched_table (current_process s) (pid (?t ! i)) ?t\<rparr>)"
      unfolding if_P [OF True] by blast
    have "if current_process s = Some (pid (?t ! i))
          then schedule s = Some s
          else \<exists>s'. schedule s = Some s' \<and> context_switched (pid (?t ! i)) s s'"
    proof (cases "current_process s = Some (pid (?t ! i))")
      case True
      with i(2) show ?thesis by simp
    next
      case False
      with i(2) have "schedule s = Some (s\<lparr>current_process := Some (pid (?t ! i)),
                  process_table := switched_table (current_process s) (pid (?t ! i)) ?t\<rparr>)"
        by simp
      then have "schedule s = Some (s\<lparr>current_process := Some (pid (?t ! i)),
                  process_table := switched_table (current_process s) (pid (?t ! i)) ?t\<rparr>)
               \<and> context_switched (pid (?t ! i)) s
                   (s\<lparr>current_process := Some (pid (?t ! i)),
                      process_table := switched_table (current_process s) (pid (?t ! i)) ?t\<rparr>)"
        using context_switched_table by simp
      then have "\<exists>s'. schedule s = Some s' \<and> context_switched (pid (?t ! i)) s s'"
        by (intro exI)
      with False show ?thesis by (simp only: if_False)
    qed
    with i(1) have "\<exists>i. first_max_ready ?t i
                 \<and> (if current_process s = Some (pid (?t ! i))
                    then schedule s = Some s
                    else \<exists>s'. schedule s = Some s' \<and> context_switched (pid (?t ! i)) s s')"
      by blast
    then show ?thesis by (simp only: if_P [OF True])
  next
    case False
    from r have "schedule s = Some s" unfolding if_not_P [OF False] .
    then show ?thesis by (simp only: if_not_P [OF False])
  qed
  fix i j
  assume h: "i < length ?t \<and> j < length ?t
              \<and> state (?t ! i) = PROCESS_READY \<and> priority (?t ! i) = 5
              \<and> state (?t ! j) = PROCESS_READY \<and> priority (?t ! j) = 10
              \<and> (\<forall>k<length ?t. state (?t ! k) = PROCESS_READY \<longrightarrow> k = i \<or> k = j)
              \<and> scheduler_running s \<and> current_process s \<noteq> Some (pid (?t ! j))"
  then have j: "j < length ?t" "state (?t ! j) = PROCESS_READY" "priority (?t ! j) = 10" by simp_all
  then have "?t ! j \<in> set ?t" by simp
  with j h have c: ?c by auto
  from g obtain n where n: "first_max_ready ?t n"
    "if current_process s = Some (pid (?t ! n))
     then schedule s = Some s
     else \<exists>s'. schedule s = Some s' \<and> context_switched (pid (?t ! n)) s s'"
    unfolding if_P [OF c] by blast
  from n(1) have nr: "n < length ?t" "state (?t ! n) = PROCESS_READY"
    and mx: "priority (?t ! j) \<le> priority (?t ! n)"
    using j by (auto simp: first_max_ready_def)
  from nr h have "n = i \<or> n = j" by blast
  with mx h have "n = j" by auto
  with n(2) h obtain s' where s': "schedule s = Some s'" "context_switched (pid (?t ! j)) s s'"
    by auto
  from s'(2) j(1) have "current_process s' = Some (pid (?t ! j))"
    "process_table s' ! j = (?t ! j)\<lparr>state := PROCESS_RUNNING\<rparr>"
    by (simp_all add: context_switched_def Let_def)
  then have "schedule s = Some s' \<and> current_process s' = Some (pid (?t ! j))
         \<and> state (process_table s' ! j) = PROCESS_RUNNING"
    using s'(1) by simp
  then show "\<exists>s'. schedule s = Some s' \<and> current_process s' = Some (pid (?t ! j))
                    \<and> state (process_table s' ! j) = PROCESS_RUNNING"
    by (intro exI)
qed

lemma two_ready_reached:
  "pm_run [P_initialize, P_create_process ''a'' 0x5000, P_create_process ''b'' 0x6000,
           P_set_process_priority 1 5, P_set_process_priority 2 10] ProcessManager_new
     = Some ([R_bool True, R_pid 1, R_pid 2, R_void, R_void], two_ready)"
  by (simp add: two_ready_def pm_eval)

theorem schedule_selects_witness:
  "(case current_process two_ready of None \<Rightarrow> True
    | Some cur \<Rightarrow> cur \<in> pid ` set (process_table two_ready))
   \<and> map (\<lambda>pcb. (pid pcb, state pcb, priority pcb)) (process_table two_ready)
       = [(1, PROCESS_READY, 5), (2, PROCESS_READY, 10)]
   \<and> scheduler_running two_ready \<and> current_process two_ready = None
   \<and> (\<exists>s'. schedule two_ready = Some s' \<and> current_process s' = Some 2
          \<and> state (process_table s' ! 1) = PROCESS_RUNNING
          \<and> map (\<lambda>pcb. (pid pcb, state pcb)) (process_table s')
              = [(1, PROCESS_READY), (2, PROCESS_RUNNING)])"
proof -
  have h: "case current_process two_ready of None \<Rightarrow> True
    | Some cur \<Rightarrow> cur \<in> pid ` set (process_table two_ready)"
    by (simp add: two_ready_def)
  have t: "map (\<lambda>pcb. (pid pcb, state pcb, priority pcb)) (process_table two_ready)
       = [(1, PROCESS_READY, 5), (2, PROCESS_READY, 10)]"
    "scheduler_running two_ready" "current_process two_ready = None"
    by (simp_all add: two_ready_def)
  have c: "0 < length (process_table two_ready) \<and> 1 < length (process_table two_ready)
              \<and> state (process_table two_ready ! 0) = PROCESS_READY
              \<and> priority (process_table two_ready ! 0) = 5
              \<and> state (process_table two_ready ! 1) = PROCESS_READY
              \<and> priority (process_table two_ready ! 1) = 10
              \<and> (\<forall>k<length (process_table two_ready).
                    state (process_table two_ready ! k) = PROCESS_READY \<longrightarrow> k = 0 \<or> k = 1)
              \<and> scheduler_running two_ready
              \<and> current_process two_ready \<noteq> Some (pid (process_table two_ready ! 1))"
    by (auto simp: two_ready_def)
  from schedule_selects [OF h] c
  obtain s' where s': "schedule two_ready = Some s'"
    "current_process s' = Some (pid (process_table two_ready ! 1))"
    "state (process_table s' ! 1) = PROCESS_RUNNING"
    by blast
  have v: "map_option (\<lambda>s. map (\<lambda>pcb. (pid pcb, state pcb)) (process_table s)) (schedule two_ready)
             = Some [(1, PROCESS_READY), (2, PROCESS_RUNNING)]"
    by (simp add: two_ready_def pm_eval)
  have "schedule two_ready = Some s' \<and> current_process s' = Some 2
          \<and> state (process_table s' ! 1) = PROCESS_RUNNING
          \<and> map (\<lambda>pcb. (pid pcb, state pcb)) (process_table s')
              = [(1, PROCESS_READY), (2, PROCESS_RUNNING)]"
    using s' v by (simp add: two_ready_def)
  then have "\<exists>s'. schedule two_ready = Some s' \<and> current_process s' = Some 2
          \<and> state (process_table s' ! 1) = PROCESS_RUNNING
          \<and> map (\<lambda>pcb. (pid pcb, state pcb)) (process_table s')
              = [(1, PROCESS_READY), (2, PROCESS_RUNNING)]"
    by (intro exI)
  with h t show ?thesis by simp
qed

text \<open>
  Claim C2 as stated fails in four ways. The scan starts with
  \<open>highest_priority = -1\<close> and compares with \<open>>\<close>: a READY record of priority
  \<open>-1\<close> is never selected. \<open>schedule()\<close> switches only when the selected record is
  not the one \<open>current_process\<close> points to, and \<open>suspend_process\<close> and
  \<open>resume_process\<close> leave that pointer alone: with records of priorities 5 and 10
  both READY and the priority-10 one still current, it stays READY. And after
  \<open>terminate_process\<close> of the current record, \<open>current_process\<close> dangles and
  \<open>schedule()\<close> writes through it. Before \<open>initialize\<close> the scheduler is not
  running and \<open>schedule()\<close> returns at once.
\<close>

theorem schedule_counterexample:
  "(case pm_run [P_initialize, P_create_process ''a'' 0x5000, P_set_process_priority 1 (- 1)]
           ProcessManager_new of
      None \<Rightarrow> False
    | Some (rs, s) \<Rightarrow>
        scheduler_running s
        \<and> map (\<lambda>pcb. (pid pcb, state pcb, priority pcb)) (process_table s)
            = [(1, PROCESS_READY, - 1)]
        \<and> schedule s = Some s)
   \<and> (case pm_run [P_initialize, P_create_process ''a'' 0x5000, P_create_process ''b'' 0x6000,
                P_set_process_priority 1 5, P_set_process_priority 2 10, P_schedule,
                P_suspend_process 2, P_resume_process 2] ProcessManager_new of
      None \<Rightarrow> False
    | Some (rs, s) \<Rightarrow>
        scheduler_running s \<and> current_process s = Some 2
        \<and> map (\<lambda>pcb. (pid pcb, state pcb, priority pcb)) (process_table s)
            = [(1, PROCESS_READY, 5), (2, PROCESS_READY, 10)]
        \<and> schedule s = Some s)
   \<and> (case pm_run [P_initialize, P_create_process ''a'' 0x5000, P_create_process ''b'' 0x6000,
                P_schedule, P_terminate_process 1] ProcessManager_new of
      None \<Rightarrow> False
    | Some (rs, s) \<Rightarrow>
        scheduler_running s \<and> current_process s = Some 1
        \<and> map (\<lambda>pcb. (pid pcb, state pcb, priority pcb)) (process_table s)
            = [(2, PROCESS_READY, 1)]
        \<and> schedule s = None)
   \<and> (case pm_run [P_create_process ''a'' 0x5000] ProcessManager_new of
      None \<Rightarrow> False
    | Some (rs, s) \<Rightarrow>
        \<not> scheduler_running s \<and> current_process s = None
        \<and> map (\<lambda>pcb. (pid pcb, state pcb, priority pcb)) (process_table s)
            = [(1, PROCESS_READY, 1)]
        \<and> schedule s = Some s)"
  by (simp add: pm_eval)

section \<open>Process ids\<close>

lemma map_pid_update_pcb:
  "(\<And>pcb. pid (f pcb) = pid pcb) \<Longrightarrow> map pid (update_pcb p f table) = map pid table"
  by (induction table) (simp_all add: update_pcb_def)

lemma pid_inv_table:
  assumes "pid_inv s" "map pid (process_table s') = map pid (process_table s)"
    "next_pid s' = next_pid s"
  shows "pid_inv s'"
proof -
  have "list_all (\<lambda>pcb. 0 < pid pcb \<and> pid pcb < next_pid s) (process_table s')
        = list_all (\<lambda>p. 0 < p \<and> p < next_pid s) (map pid (process_table s'))"
    by (simp add: list_all_iff)
  also have "\<dots> = list_all (\<lambda>pcb. 0 < pid pcb \<and> pid pcb < next_pid s) (process_table s)"
    by (simp add: assms(2) list_all_iff)
  finally show ?thesis using assms by (simp add: pid_inv_def)
qed

lemma pid_inv_filter:
  assumes "pid_inv s" "next_pid s' = next_pid s"
    "map pid (process_table s') = filter P (map pid (process_table s))"
  shows "pid_inv s'"
proof -
  have sub: "set (map pid (process_table s')) \<subseteq> set (map pid (process_table s))"
    by (simp add: assms(3))
  have "\<forall>p\<in>set (map pid (process_table s)). 0 < p \<and> p < next_pid s"
    using assms(1) by (simp add: pid_inv_def list_all_iff)
  with sub have "\<forall>p\<in>set (map pid (process_table s')). 0 < p \<and> p < next_pid s" by blast
  then have "list_all (\<lambda>pcb. 0 < pid pcb \<and> pid pcb < next_pid s') (process_table s')"
    by (simp add: list_all_iff assms(2))
  moreover have "distinct (map pid (process_table s'))"
    using assms(1) by (simp add: assms(3) pid_inv_def)
  ultimately show ?thesis using assms(1,2) by (simp add: pid_inv_def)
qed

lemma filter_update_pcb:
  "(\<And>pcb. pid (f pcb) = pid pcb) \<Longrightarrow>
   filter (\<lambda>pcb. pid pcb \<noteq> p) (update_pcb p f table) = filter (\<lambda>pcb. pid pcb \<noteq> p) table"
  by (induction table) (simp_all add: update_pcb_def)

lemma terminate_process_table:
  "process_table (snd (terminate_process p s)) = filter (\<lambda>pcb. pid pcb \<noteq> p) (process_table s)
   \<and> next_pid (snd (terminate_process p s)) = next_pid s
   \<and> current_process (snd (terminate_process p s)) = current_process s
   \<and> scheduler_running (snd (terminate_process p s)) = scheduler_running s"
proof (cases "find_pcb p (process_table s)")
  case None
  then have "p \<notin> pid ` set (process_table s)" by (simp add: find_pcb_None)
  then have "filter (\<lambda>pcb. pid pcb \<noteq> p) (process_table s) = process_table s"
    by (intro filter_True) auto
  with None show ?thesis by (simp add: terminate_process_def)
next
  case (Some pcb)
  then show ?thesis by (simp add: terminate_process_def filter_update_pcb)
qed

lemma terminate_process_pids:
  "map pid (process_table (snd (terminate_process p s))) = filter (\<lambda>q. q \<noteq> p) (map pid (process_table s))
   \<and> next_pid (snd (terminate_process p s)) = next_pid s"
  by (simp add: terminate_process_table filter_map o_def)

lemma suspend_process_pids:
  "map pid (process_table (snd (suspend_process p s))) = map pid (process_table s)
   \<and> next_pid (snd (suspend_process p s)) = next_pid s"
  by (simp add: suspend_process_def map_pid_update_pcb split: option.splits)

lemma resume_process_pids:
  "map pid (process_table (snd (resume_process p s))) = map pid (process_table s)
   \<and> next_pid (snd (resume_process p s)) = next_pid s"
  by (simp add: resume_process_def map_pid_update_pcb split: option.splits)

lemma set_process_priority_pids:
  "map pid (process_table (set_process_priority p prio s)) = map pid (process_table s)
   \<and> next_pid (set_process_priority p prio s) = next_pid s"
  by (simp add: set_process_priority_def map_pid_update_pcb split: option.splits)

lemma schedule_pids:
  "schedule s = Some s' \<Longrightarrow>
   map pid (process_table s') = map pid (process_table s) \<and> next_pid s' = next_pid s"
  by (auto simp: schedule_def context_switch_def map_pid_update_pcb
      split: option.splits if_splits)

lemma exec_pids:
  "exec_begin p s = Some s' \<Longrightarrow>
   map pid (process_table s') = map pid (process_table s) \<and> next_pid s' = next_pid s"
  "exec_work p w s = Some s' \<Longrightarrow>
   map pid (process_table s') = map pid (process_table s) \<and> next_pid s' = next_pid s"
  "exec_end p s = Some s' \<Longrightarrow>
   map pid (process_table s') = map pid (process_table s) \<and> next_pid s' = next_pid s"
  by (auto simp: exec_begin_def exec_work_def exec_end_def map_pid_update_pcb
      split: option.splits if_splits)

lemma create_pcb_Some:
  assumes "create_pcb path s = Some (pcb, s')"
  shows "pid pcb = next_pid s" "state pcb = PROCESS_READY" "s' = s\<lparr>next_pid := next_pid s + 1\<rparr>"
  using assms by (auto simp: create_pcb_def split: if_splits option.splits)

lemma create_process_Some:
  assumes "create_process path m s = Some (r, s')"
  shows "(r = - 1 \<and> s' = s\<lparr>next_pid := next_pid s + 1\<rparr>)
         \<or> (\<exists>pcb. r = next_pid s \<and> pid pcb = next_pid s \<and> state pcb = PROCESS_READY
               \<and> s' = s\<lparr>next_pid := next_pid s + 1, process_table := process_table s @ [pcb]\<rparr>)"
proof -
  from assms obtain pcb s1 where c: "create_pcb path s = Some (pcb, s1)"
    by (auto simp: create_process_def split: option.splits)
  note cs = create_pcb_Some [OF c]
  show ?thesis
  proof (cases "m = 0")
    case True
    with assms c cs show ?thesis by (simp add: create_process_def load_executable_def Let_def)
  next
    case False
    let ?pcb = "pcb\<lparr>memory_size := 1024 * 64, memory_base := m, process_thread := Not_started\<rparr>"
    have "r = next_pid s \<and> pid ?pcb = next_pid s \<and> state ?pcb = PROCESS_READY
          \<and> s' = s\<lparr>next_pid := next_pid s + 1, process_table := process_table s @ [?pcb]\<rparr>"
      using False assms c cs by (auto simp add: create_process_def load_executable_def Let_def)
    then show ?thesis by blast
  qed
qed

lemma create_process_pids:
  assumes "create_process path m s = Some (r, s')" "pid_inv s"
  shows "pid_inv s' \<and> next_pid s' = next_pid s + 1 \<and> (r = - 1 \<or> r = next_pid s)"
proof -
  have mono: "list_all (\<lambda>pcb. 0 < pid pcb \<and> pid pcb < next_pid s + 1) (process_table s)"
    using assms(2) by (auto simp: pid_inv_def list_all_iff)
  from create_process_Some [OF assms(1)] show ?thesis
  proof
    assume "r = - 1 \<and> s' = s\<lparr>next_pid := next_pid s + 1\<rparr>"
    then show ?thesis using assms(2) mono by (simp add: pid_inv_def)
  next
    assume "\<exists>pcb. r = next_pid s \<and> pid pcb = next_pid s \<and> state pcb = PROCESS_READY
               \<and> s' = s\<lparr>next_pid := next_pid s + 1, process_table := process_table s @ [pcb]\<rparr>"
    then obtain pcb where p: "r = next_pid s" "pid pcb = next_pid s"
      "s' = s\<lparr>next_pid := next_pid s + 1, process_table := process_table s @ [pcb]\<rparr>" by blast
    have "next_pid s \<notin> pid ` set (process_table s)"
      using assms(2) by (auto simp: pid_inv_def list_all_iff)
    then show ?thesis using assms(2) mono p by (simp add: pid_inv_def)
  qed
qed

lemma send_signal_Some: "send_signal p signal s = Some (sent, s') \<Longrightarrow> s' = s"
  by (auto simp: send_signal_def while_locked_def split: option.splits if_splits)

lemma pm_step_pids:
  assumes "pm_step c s = Some (r, s')" "pid_inv s"
  shows "pid_inv s' \<and> next_pid s \<le> next_pid s'
         \<and> (\<forall>p\<in>set (created_pids [r]). p = next_pid s \<and> next_pid s < next_pid s')
         \<and> set (map pid (process_table s')) \<subseteq> set (map pid (process_table s)) \<union> set (created_pids [r])"
proof (cases c)
  case P_initialize
  with assms show ?thesis by (auto simp: pm_initialize_def pid_inv_def)
next
  case (P_create_process path m)
  with assms(1) obtain q where q: "create_process path m s = Some (q, s')" "r = R_pid q" by auto
  have pos: "0 < next_pid s" using assms(2) by (simp add: pid_inv_def)
  from create_process_Some [OF q(1)] show ?thesis
  proof
    assume "q = - 1 \<and> s' = s\<lparr>next_pid := next_pid s + 1\<rparr>"
    then show ?thesis using create_process_pids [OF q(1) assms(2)] q(2) by simp
  next
    assume "\<exists>pcb. q = next_pid s \<and> pid pcb = next_pid s \<and> state pcb = PROCESS_READY
               \<and> s' = s\<lparr>next_pid := next_pid s + 1, process_table := process_table s @ [pcb]\<rparr>"
    then obtain pcb where p: "q = next_pid s" "pid pcb = next_pid s"
      "s' = s\<lparr>next_pid := next_pid s + 1, process_table := process_table s @ [pcb]\<rparr>" by blast
    have "created_pids [r] = [next_pid s]" using pos p(1) q(2) by simp
    then show ?thesis using create_process_pids [OF q(1) assms(2)] p by auto
  qed
next
  case (P_terminate_process p)
  with assms(1) have s': "s' = snd (terminate_process p s)" and r: "created_pids [r] = []" by auto
  have "pid_inv s'"
    by (rule pid_inv_filter [OF assms(2), where P = "\<lambda>q. q \<noteq> p"]) (simp_all add: s' terminate_process_pids)
  then show ?thesis using r by (simp add: s' terminate_process_pids)
next
  case (P_suspend_process p)
  with assms(1) have s': "s' = snd (suspend_process p s)" and r: "created_pids [r] = []" by auto
  have "pid_inv s'" by (rule pid_inv_table [OF assms(2)]) (simp_all add: s' suspend_process_pids)
  then show ?thesis using r by (simp add: s' suspend_process_pids)
next
  case (P_resume_process p)
  with assms(1) have s': "s' = snd (resume_process p s)" and r: "created_pids [r] = []" by auto
  have "pid_inv s'" by (rule pid_inv_table [OF assms(2)]) (simp_all add: s' resume_process_pids)
  then show ?thesis using r by (simp add: s' resume_process_pids)
next
  case (P_set_process_priority p prio)
  with assms(1) have s': "s' = set_process_priority p prio s" and r: "created_pids [r] = []" by auto
  have "pid_inv s'" by (rule pid_inv_table [OF assms(2)]) (simp_all add: s' set_process_priority_pids)
  then show ?thesis using r by (simp add: s' set_process_priority_pids)
next
  case P_schedule
  with assms(1) have s': "schedule s = Some s'" and r: "created_pids [r] = []" by auto
  have "pid_inv s'" by (rule pid_inv_table [OF assms(2)]) (simp_all add: schedule_pids [OF s'])
  then show ?thesis using r by (simp add: schedule_pids [OF s'])
next
  case (P_send_signal p signal)
  with assms(1) obtain sent where "send_signal p signal s = Some (sent, s')" and r: "created_pids [r] = []"
    by auto
  then have "s' = s" by (simp add: send_signal_Some)
  with assms(2) r show ?thesis by simp
next
  case (X_begin p)
  with assms(1) have s': "exec_begin p s = Some s'" and r: "created_pids [r] = []" by auto
  have "pid_inv s'" by (rule pid_inv_table [OF assms(2)]) (simp_all add: exec_pids(1) [OF s'])
  then show ?thesis using r by (simp add: exec_pids(1) [OF s'])
next
  case (X_work p w)
  with assms(1) have s': "exec_work p w s = Some s'" and r: "created_pids [r] = []" by auto
  have "pid_inv s'" by (rule pid_inv_table [OF assms(2)]) (simp_all add: exec_pids(2) [OF s'])
  then show ?thesis using r by (simp add: exec_pids(2) [OF s'])
next
  case (X_end p)
  with assms(1) have s': "exec_end p s = Some s'" and r: "created_pids [r] = []" by auto
  have "pid_inv s'" by (rule pid_inv_table [OF assms(2)]) (simp_all add: exec_pids(3) [OF s'])
  then show ?thesis using r by (simp add: exec_pids(3) [OF s'])
qed

lemma created_pids_Cons: "created_pids (r # rs) = created_pids [r] @ created_pids rs"
  by (cases r) simp_all

lemma pm_run_pids:
  assumes "pm_run cs s = Some (rs, s')" "pid_inv s"
  shows "pid_inv s' \<and> next_pid s \<le> next_pid s'
         \<and> sorted_wrt (<) (created_pids rs)
         \<and> (\<forall>p\<in>set (created_pids rs). next_pid s \<le> p \<and> p < next_pid s')
         \<and> set (map pid (process_table s')) \<subseteq> set (map pid (process_table s)) \<union> set (created_pids rs)"
  using assms
proof (induction cs arbitrary: s rs)
  case Nil
  then show ?case by simp
next
  case (Cons c cs)
  from Cons.prems(1) obtain r s1 rs1 where
    st: "pm_step c s = Some (r, s1)" and run: "pm_run cs s1 = Some (rs1, s')" and rs: "rs = r # rs1"
    by (auto split: option.splits)
  note a = pm_step_pids [OF st Cons.prems(2)]
  from a have inv1: "pid_inv s1" by simp
  note b = Cons.IH [OF run inv1]
  have "sorted_wrt (<) (created_pids [r] @ created_pids rs1)"
    unfolding sorted_wrt_append using a b by (cases r) (auto split: if_splits)
  moreover have "\<forall>p\<in>set (created_pids (r # rs1)). next_pid s \<le> p \<and> p < next_pid s'"
    using a b by (subst created_pids_Cons) auto
  moreover have "set (map pid (process_table s')) \<subseteq> set (map pid (process_table s)) \<union> set (created_pids (r # rs1))"
  proof -
    have 1: "set (map pid (process_table s1)) \<subseteq> set (map pid (process_table s)) \<union> set (created_pids [r])"
      using a by blast
    have 2: "set (map pid (process_table s')) \<subseteq> set (map pid (process_table s1)) \<union> set (created_pids rs1)"
      using b by blast
    have 3: "set (created_pids (r # rs1)) = set (created_pids [r]) \<union> set (created_pids rs1)"
      by (subst created_pids_Cons) simp
    show ?thesis unfolding 3 using 1 2 by blast
  qed
  ultimately show ?case using a b rs by (simp add: created_pids_Cons [of r rs1])
qed

lemma pid_inv_new: "pid_inv ProcessManager_new"
  by (simp add: pid_inv_def ProcessManager_new_def)

text \<open>
  Claim C5. In every run of a new process manager, over all its operations and the
  steps of the execution units, the pids that successful \<open>create_process\<close> calls
  return are strictly increasing; the pids of the table are pairwise different and each
  is one of the returned pids; every returned pid is positive and below \<open>next_pid\<close>, so
  no later call returns it again, also after its record has been terminated and removed.
\<close>

theorem pids_strictly_increasing:
  assumes "pm_run cs ProcessManager_new = Some (rs, s)"
  shows "sorted_wrt (<) (created_pids rs)
         \<and> distinct (map pid (process_table s))
         \<and> set (map pid (process_table s)) \<subseteq> set (created_pids rs)
         \<and> list_all (\<lambda>p. 0 < p \<and> p < next_pid s) (created_pids rs)"
proof -
  note a = pm_run_pids [OF assms pid_inv_new]
  have "next_pid ProcessManager_new = 1" "process_table ProcessManager_new = []"
    by (simp_all add: ProcessManager_new_def)
  with a show ?thesis by (auto simp: pid_inv_def list_all_iff)
qed

theorem pids_strictly_increasing_witness:
  "\<exists>rs s. pm_run [P_initialize, P_create_process ''a'' 0x5000, P_create_process ''b'' 0x6000,
                   P_terminate_process 1, P_create_process ''c'' 0x7000] ProcessManager_new
             = Some (rs, s)
     \<and> rs = [R_bool True, R_pid 1, R_pid 2, R_bool True, R_pid 3]
     \<and> map pid (process_table s) = [2, 3]
     \<and> sorted_wrt (<) (created_pids rs)
     \<and> distinct (map pid (process_table s))
     \<and> set (map pid (process_table s)) \<subseteq> set (created_pids rs)
     \<and> list_all (\<lambda>p. 0 < p \<and> p < next_pid s) (created_pids rs)"
proof -
  obtain rs s where r: "pm_run [P_initialize, P_create_process ''a'' 0x5000, P_create_process ''b'' 0x6000,
                   P_terminate_process 1, P_create_process ''c'' 0x7000] ProcessManager_new
             = Some (rs, s)"
    and v: "rs = [R_bool True, R_pid 1, R_pid 2, R_bool True, R_pid 3]" "map pid (process_table s) = [2, 3]"
    by (simp add: pm_eval)
  from pids_strictly_increasing [OF r] r v
  have "pm_run [P_initialize, P_create_process ''a'' 0x5000, P_create_process ''b'' 0x6000,
                   P_terminate_process 1, P_create_process ''c'' 0x7000] ProcessManager_new
             = Some (rs, s)
     \<and> rs = [R_bool True, R_pid 1, R_pid 2, R_bool True, R_pid 3]
     \<and> map pid (process_table s) = [2, 3]
     \<and> sorted_wrt (<) (created_pids rs)
     \<and> distinct (map pid (process_table s))
     \<and> set (map pid (process_table s)) \<subseteq> set (created_pids rs)
     \<and> list_all (\<lambda>p. 0 < p \<and> p < next_pid s) (created_pids rs)"
    by (intro conjI) (elim conjE, assumption)+
  then show ?thesis by (intro exI)
qed

section \<open>At most one RUNNING record\<close>

text \<open>
  The operations of the manager alone keep at most one record RUNNING, the current one:
  \<open>context_switch\<close> makes the old record READY when it makes the new one RUNNING.
\<close>

lemma sched_inv_keep:
  assumes "sched_inv s" "current_process s' = current_process s"
    "\<forall>pcb'\<in>set (process_table s'). state pcb' = PROCESS_RUNNING \<longrightarrow>
        (\<exists>pcb\<in>set (process_table s). pid pcb = pid pcb' \<and> state pcb = PROCESS_RUNNING)"
  shows "sched_inv s'"
  using assms by (fastforce simp: sched_inv_def list_all_iff)

lemma update_pcb_running:
  assumes "\<And>pcb. pid (f pcb) = pid pcb"
    "\<And>pcb. state (f pcb) = PROCESS_RUNNING \<Longrightarrow> state pcb = PROCESS_RUNNING"
  shows "\<forall>pcb'\<in>set (update_pcb p f table). state pcb' = PROCESS_RUNNING \<longrightarrow>
           (\<exists>pcb\<in>set table. pid pcb = pid pcb' \<and> state pcb = PROCESS_RUNNING)"
  using assms by (fastforce simp: update_pcb_def)

lemma sched_inv_terminate: "sched_inv s \<Longrightarrow> sched_inv (snd (terminate_process p s))"
  by (rule sched_inv_keep) (auto simp: terminate_process_table)

lemma sched_inv_update:
  assumes "sched_inv s" "\<And>pcb. pid (f pcb) = pid pcb"
    "\<And>pcb. state (f pcb) = PROCESS_RUNNING \<Longrightarrow> state pcb = PROCESS_RUNNING"
  shows "sched_inv (s\<lparr>process_table := update_pcb p f (process_table s)\<rparr>)"
proof (rule sched_inv_keep [OF assms(1)])
  show "current_process (s\<lparr>process_table := update_pcb p f (process_table s)\<rparr>) = current_process s"
    by simp
  have "\<forall>pcb'\<in>set (update_pcb p f (process_table s)). state pcb' = PROCESS_RUNNING \<longrightarrow>
           (\<exists>pcb\<in>set (process_table s). pid pcb = pid pcb' \<and> state pcb = PROCESS_RUNNING)"
    by (rule update_pcb_running) (fact assms(2), fact assms(3))
  then show "\<forall>pcb'\<in>set (process_table (s\<lparr>process_table := update_pcb p f (process_table s)\<rparr>)).
       state pcb' = PROCESS_RUNNING \<longrightarrow>
       (\<exists>pcb\<in>set (process_table s). pid pcb = pid pcb' \<and> state pcb = PROCESS_RUNNING)"
    by simp
qed

lemma sched_inv_suspend: "sched_inv s \<Longrightarrow> sched_inv (snd (suspend_process p s))"
  using sched_inv_update [of s "\<lambda>pcb. pcb\<lparr>state := PROCESS_BLOCKED\<rparr>" p]
  by (simp add: suspend_process_def split: option.splits)

lemma sched_inv_resume: "sched_inv s \<Longrightarrow> sched_inv (snd (resume_process p s))"
  using sched_inv_update [of s "\<lambda>pcb. pcb\<lparr>state := PROCESS_READY\<rparr>" p]
  by (simp add: resume_process_def split: option.splits)

lemma sched_inv_set_priority: "sched_inv s \<Longrightarrow> sched_inv (set_process_priority p prio s)"
  using sched_inv_update [of s "\<lambda>pcb. pcb\<lparr>priority := prio\<rparr>" p]
  by (simp add: set_process_priority_def split: option.splits)

lemma sched_inv_create:
  assumes "sched_inv s" "create_process path m s = Some (r, s')"
  shows "sched_inv s'"
  using create_process_Some [OF assms(2)] assms(1)
  by (auto simp: sched_inv_def)

lemma sched_inv_context_switch:
  assumes "sched_inv s" "context_switch (current_process s) (Some new) s = Some s'"
    "Some new \<noteq> current_process s"
  shows "sched_inv s'"
proof -
  have live: "case current_process s of None \<Rightarrow> True | Some cur \<Rightarrow> cur \<in> pid ` set (process_table s)"
    using assms(2) by (auto simp: context_switch_def dest: find_pcb_Some split: option.splits)
  from context_switch_table [OF live assms(3)] assms(2)
  have s': "s' = s\<lparr>current_process := Some new,
                   process_table := switched_table (current_process s) new (process_table s)\<rparr>"
    by simp
  show ?thesis using assms(1) unfolding s'
    by (auto simp: sched_inv_def list_all_iff switched_table_def)
qed

lemma sched_inv_schedule:
  assumes "sched_inv s" "schedule s = Some s'"
  shows "sched_inv s'"
proof (cases "s' = s")
  case True
  with assms(1) show ?thesis by simp
next
  case False
  with assms(2) obtain new where "Some new \<noteq> current_process s"
    "context_switch (current_process s) (Some new) s = Some s'"
    by (auto simp: schedule_def split: if_splits option.splits)
  with assms(1) show ?thesis using sched_inv_context_switch by blast
qed

lemma sched_inv_step:
  assumes "pm_step c s = Some (r, s')" "sched_inv s" "manager_op c"
  shows "sched_inv s'"
proof (cases c)
  case P_initialize
  with assms show ?thesis by (auto simp: pm_initialize_def sched_inv_def)
next
  case (P_create_process path m)
  with assms show ?thesis using sched_inv_create by auto
next
  case (P_terminate_process p)
  with assms show ?thesis using sched_inv_terminate by auto
next
  case (P_suspend_process p)
  with assms show ?thesis using sched_inv_suspend by auto
next
  case (P_resume_process p)
  with assms show ?thesis using sched_inv_resume by auto
next
  case (P_set_process_priority p prio)
  with assms show ?thesis using sched_inv_set_priority by auto
next
  case P_schedule
  with assms show ?thesis using sched_inv_schedule by auto
next
  case (P_send_signal p signal)
  with assms(1) obtain sent where "send_signal p signal s = Some (sent, s')" by auto
  then have "s' = s" by (rule send_signal_Some)
  with assms(2) show ?thesis by simp
next
  case (X_begin p)
  with assms(3) show ?thesis by simp
next
  case (X_work p w)
  with assms(3) show ?thesis by simp
next
  case (X_end p)
  with assms(3) show ?thesis by simp
qed

lemma sched_inv_run:
  assumes "pm_run cs s = Some (rs, s')" "sched_inv s" "list_all manager_op cs"
  shows "sched_inv s'"
  using assms
proof (induction cs arbitrary: s rs)
  case Nil
  then show ?case by simp
next
  case (Cons c cs)
  from Cons.prems(1) obtain r s1 rs1 where
    st: "pm_step c s = Some (r, s1)" and run: "pm_run cs s1 = Some (rs1, s')"
    by (auto split: option.splits)
  have "sched_inv s1" using sched_inv_step [OF st Cons.prems(2)] Cons.prems(3) by simp
  from Cons.IH [OF run this] Cons.prems(3) show ?case by simp
qed

lemma at_most_one:
  "distinct (map pid table) \<Longrightarrow> \<forall>pcb\<in>set table. P pcb \<longrightarrow> pid pcb = c
   \<Longrightarrow> length (filter P table) \<le> 1"
proof (induction table)
  case Nil
  show ?case by simp
next
  case (Cons a table)
  show ?case
  proof (cases "P a")
    case True
    have "\<forall>pcb\<in>set table. \<not> P pcb"
    proof
      fix pcb
      assume m: "pcb \<in> set table"
      show "\<not> P pcb"
      proof
        assume "P pcb"
        with m Cons.prems(2) True have "pid pcb = pid a" by simp
        moreover have "pid pcb \<in> pid ` set table" using m by (rule imageI)
        ultimately show False using Cons.prems(1) by simp
      qed
    qed
    then have "filter P table = []" by (simp add: filter_empty_conv)
    with True show ?thesis by simp
  next
    case False
    with Cons show ?thesis by simp
  qed
qed

lemma manager_calls_one_running:
  assumes "pm_run cs ProcessManager_new = Some (rs, s)" "list_all manager_op cs"
  shows "length (running s) \<le> 1
         \<and> list_all (\<lambda>pcb. current_process s = Some (pid pcb)) (running s)"
proof -
  have "sched_inv ProcessManager_new" by (simp add: sched_inv_def ProcessManager_new_def)
  from sched_inv_run [OF assms(1) this assms(2)] have si: "sched_inv s" .
  have d: "distinct (map pid (process_table s))"
    using pm_run_pids [OF assms(1) pid_inv_new] by (simp add: pid_inv_def)
  have cur: "list_all (\<lambda>pcb. current_process s = Some (pid pcb)) (running s)"
    using si by (simp add: sched_inv_def running_def list_all_iff)
  show ?thesis
  proof (cases "current_process s")
    case None
    with cur have "running s = []" by (cases "running s") simp_all
    with cur show ?thesis by simp
  next
    case (Some c)
    have "\<forall>pcb\<in>set (process_table s). state pcb = PROCESS_RUNNING \<longrightarrow> pid pcb = c"
      using si Some by (auto simp: sched_inv_def list_all_iff)
    from at_most_one [OF d this] cur show ?thesis by (simp add: running_def)
  qed
qed

text \<open>
  Claim C3 says that at most one record is RUNNING in every reachable state, the steps
  of the execution units included, and right after \<open>schedule()\<close> returns.
  \<open>create_process\<close> starts the execution unit of the new record, and the first
  statement of \<open>execute_process\<close> sets that record RUNNING, without the lock and whatever
  the other records are. After two \<open>create_process\<close> calls and the first statement of
  both units, two records are RUNNING; \<open>schedule()\<close> finds no READY record and returns
  with both still RUNNING and no current process.
\<close>

theorem execution_units_both_running:
  "case pm_run [P_initialize, P_create_process ''a'' 0x5000, P_create_process ''b'' 0x6000,
                X_begin 1, X_begin 2, P_schedule] ProcessManager_new of
     None \<Rightarrow> False
   | Some (rs, s) \<Rightarrow>
       map (\<lambda>pcb. (pid pcb, state pcb)) (process_table s)
         = [(1, PROCESS_RUNNING), (2, PROCESS_RUNNING)]
       \<and> length (running s) = 2
       \<and> current_process s = None"
  by (simp add: pm_eval running_def)

section \<open>Suspending and resuming\<close>

text \<open>
  Claim C8 says that \<open>suspend_process\<close> succeeds only on a READY or RUNNING record.
  \<open>resume_process\<close> checks the state of its target, \<open>suspend_process\<close> does not:
  on a record whose execution unit has ended (TERMINATED) it returns true and makes the
  record BLOCKED, from where \<open>resume_process\<close> makes it READY; on a BLOCKED record it
  returns true as well.
\<close>

theorem suspend_terminated_succeeds:
  "case pm_run [P_initialize, P_create_process ''a'' 0x5000, X_begin 1, X_end 1] ProcessManager_new of
     None \<Rightarrow> False
   | Some (rs, s) \<Rightarrow>
       map (\<lambda>pcb. (pid pcb, state pcb)) (process_table s) = [(1, PROCESS_TERMINATED)]
       \<and> fst (suspend_process 1 s) = True
       \<and> map (\<lambda>pcb. (pid pcb, state pcb)) (process_table (snd (suspend_process 1 s)))
           = [(1, PROCESS_BLOCKED)]
       \<and> fst (resume_process 1 (snd (suspend_process 1 s))) = True
       \<and> fst (suspend_process 1 (snd (suspend_process 1 s))) = True"
  by (simp add: pm_eval)

section \<open>The KILL system call\<close>

text \<open>
  \<open>send_signal\<close> itself does not return for a known pid and signal 9, 19 or 18.
\<close>

lemma send_signal_locks_twice:
  "send_signal 1 9 two_ready = None \<and> send_signal 1 19 two_ready = None
   \<and> send_signal 1 18 two_ready = None \<and> send_signal 1 15 two_ready = Some (True, two_ready)
   \<and> send_signal 7 9 two_ready = Some (False, two_ready)"
  by (simp add: two_ready_def pm_eval)

text \<open>
  Claim C10 says that KILL with signal 19 suspends its target. \<open>sys_kill\<close> reads the
  signal and calls \<open>terminate_process\<close> whatever it is: with signal 19 on a READY
  process it returns 0 and the record is removed from the table.
\<close>

theorem sys_kill_ignores_signal:
  "case pm_run [P_initialize, P_create_process ''a'' 0x5000] ProcessManager_new of
     None \<Rightarrow> False
   | Some (rs, s) \<Rightarrow>
       map (\<lambda>pcb. (pid pcb, state pcb)) (process_table s) = [(1, PROCESS_READY)]
       \<and> fst (sys_kill \<lparr>arg1 = 1, arg2 = 19\<rparr> s) = 0
       \<and> process_table (snd (sys_kill \<lparr>arg1 = 1, arg2 = 19\<rparr> s)) = []"
  by (simp add: pm_eval sys_kill_def to_int_def)

end
